theory Spec2Isabelle
  imports Main "HOL-Library.Word"
begin

unbundle bit_operations_syntax

section \<open>Machine data\<close>

type_synonym byte = "8 word"
type_synonym u16 = "16 word"
type_synonym u32 = "32 word"

text \<open>
  The target (ESP32) is little-endian, so \<open>fwrite\<close> of a struct emits every field
  low byte first. Both structs of \<open>pcap_writer.c\<close> are free of padding: their fields
  are naturally aligned (4+2+2+4+4+4+4 = 24 and 4+4+4+4 = 16 bytes).
\<close>

definition le16 :: "u16 \<Rightarrow> byte list" where
  "le16 v = [ucast v, ucast (drop_bit 8 v)]"

definition le32 :: "u32 \<Rightarrow> byte list" where
  "le32 v = [ucast v, ucast (drop_bit 8 v), ucast (drop_bit 16 v), ucast (drop_bit 24 v)]"

text \<open>Reading four bytes back as a little-endian 32-bit value (what a capture reader does).\<close>

definition rd_le32 :: "byte list \<Rightarrow> u32" where
  "rd_le32 bs = ucast (bs ! 0) OR push_bit 8 (ucast (bs ! 1))
                OR push_bit 16 (ucast (bs ! 2)) OR push_bit 24 (ucast (bs ! 3))"

section \<open>The capture writer (\<open>pcap_writer.c\<close>)\<close>

record pcap_global_header_t =
  magic_number :: u32
  version_major :: u16
  version_minor :: u16
  thiszone :: u32
  sigfigs :: u32
  snaplen :: u32
  network :: u32

record pcap_packet_header_t =
  ts_sec :: u32
  ts_usec :: u32
  incl_len :: u32
  orig_len :: u32

text \<open>The bytes of each struct as they lie in memory, which is what \<open>fwrite\<close> sends.\<close>

definition global_header_bytes :: "pcap_global_header_t \<Rightarrow> byte list" where
  "global_header_bytes gh =
     le32 (magic_number gh) @ le16 (version_major gh) @ le16 (version_minor gh)
     @ le32 (thiszone gh) @ le32 (sigfigs gh) @ le32 (snaplen gh) @ le32 (network gh)"

definition packet_header_bytes :: "pcap_packet_header_t \<Rightarrow> byte list" where
  "packet_header_bytes ph =
     le32 (ts_sec ph) @ le32 (ts_usec ph) @ le32 (incl_len ph) @ le32 (orig_len ph)"

text \<open>\<open>struct timeval\<close> as \<open>gettimeofday\<close> fills it; both fields are signed.\<close>

record timeval =
  tv_sec :: int
  tv_usec :: int

text \<open>
  The writer's state and the part of the C library it touches. \<open>pcap_file\<close> is the
  static \<open>FILE*\<close>: \<open>None\<close> is \<open>NULL\<close>, \<open>Some p\<close> a stream opened on path \<open>p\<close>.
  \<open>files\<close> is the file system: the bytes of every existing file. A stream writes
  through to its file; buffering inside \<open>stdio\<close> is not modelled.
\<close>

record writer_state =
  pcap_file :: "string option"
  files :: "string \<Rightarrow> byte list option"

text \<open>
  Reading memory at or beyond the end of the buffer a pointer refers to has no defined
  result in C. The model makes it a fault that ends the run: \<open>OutOfBounds i\<close> is a
  read at offset \<open>i\<close> of a buffer that holds \<open>i\<close> bytes or fewer.
\<close>

datatype fault = OutOfBounds nat

text \<open>
  \<open>fwrite(&obj, sizeof(obj), 1, stream)\<close>: the bytes of an object are written, and
  the size passed is the number of these bytes. Whether the device takes the bytes is
  decided outside the program: \<open>accepted\<close> is the number of bytes the sink takes before
  it reports an error. The bytes taken are appended to the file; the call returns 1 when
  all bytes went through and 0 otherwise. For no bytes at all the C library returns 0 as
  well.
\<close>

definition fwrite_object :: "writer_state \<Rightarrow> byte list \<Rightarrow> nat \<Rightarrow> nat \<times> writer_state" where
  "fwrite_object w bytes accepted =
     (case pcap_file w of
        None \<Rightarrow> (0, w)
      | Some p \<Rightarrow>
          (let old = (case files w p of None \<Rightarrow> [] | Some bs \<Rightarrow> bs);
               w' = w\<lparr>files := (files w)(p \<mapsto> old @ take accepted bytes)\<rparr>
           in (if bytes \<noteq> [] \<and> length bytes \<le> accepted then 1 else 0, w')))"

text \<open>
  \<open>fwrite(buf, sz, 1, stream)\<close> on a pointer and a size. \<open>buf\<close> is the memory the
  pointer refers to. The call reads \<open>sz\<close> bytes there; when the buffer holds fewer, the
  read leaves the buffer. Otherwise the \<open>sz\<close> bytes are written as above.
\<close>

definition fwrite ::
    "writer_state \<Rightarrow> byte list \<Rightarrow> nat \<Rightarrow> nat \<Rightarrow> fault + nat \<times> writer_state" where
  "fwrite w buf sz accepted =
     (if length buf < sz then Inl (OutOfBounds (length buf))
      else Inr (fwrite_object w (take sz buf) accepted))"

text \<open>
  \<open>pcap_writer_init\<close>. \<open>fopen_ok\<close> says whether \<open>fopen(filename, "wb")\<close> succeeds;
  when it does the file exists and is empty. \<open>accepted\<close> is the outcome of the one
  \<open>fwrite\<close> of the global header, an object of \<open>sizeof(gh)\<close> = 24 bytes.
\<close>

definition gh :: pcap_global_header_t where
  "gh = \<lparr>magic_number = 0xa1b2c3d4, version_major = 2, version_minor = 4,
         thiszone = 0, sigfigs = 0, snaplen = 0x0000ffff, network = 105\<rparr>"

definition pcap_writer_init :: "writer_state \<Rightarrow> string \<Rightarrow> bool \<Rightarrow> nat \<Rightarrow> bool \<times> writer_state" where
  "pcap_writer_init w filename fopen_ok accepted =
     (if \<not> fopen_ok then (False, w\<lparr>pcap_file := None\<rparr>)
      else
        (let w1 = w\<lparr>pcap_file := Some filename, files := (files w)(filename \<mapsto> [])\<rparr>;
             (n, w2) = fwrite_object w1 (global_header_bytes gh) accepted
         in if n \<noteq> 1 then (False, w2\<lparr>pcap_file := None\<rparr>)
            else (True, w2)))"

text \<open>
  \<open>pcap_writer_write_packet\<close>. \<open>tv\<close> is what \<open>gettimeofday\<close> returns; the two
  assignments to 32-bit fields truncate it. \<open>acc_hdr\<close> and \<open>acc_data\<close> are the
  outcomes of the two \<open>fwrite\<close> calls: the first writes the record header, an object of
  16 bytes, the second reads \<open>len\<close> bytes (the parameter \<open>length\<close> of the source) at
  the pointer \<open>data\<close>. The result is a fault, or the value returned and the new state.
\<close>

definition pcap_writer_write_packet ::
    "writer_state \<Rightarrow> byte list \<Rightarrow> u32 \<Rightarrow> timeval \<Rightarrow> nat \<Rightarrow> nat
      \<Rightarrow> fault + bool \<times> writer_state" where
  "pcap_writer_write_packet w data len tv acc_hdr acc_data =
     (if pcap_file w = None then Inr (False, w)
      else
        (let ph = \<lparr>ts_sec = word_of_int (tv_sec tv), ts_usec = word_of_int (tv_usec tv),
                   incl_len = len, orig_len = len\<rparr>;
             (n1, w1) = fwrite_object w (packet_header_bytes ph) acc_hdr
         in if n1 \<noteq> 1 then Inr (False, w1)
            else
              (case fwrite w1 data (unat len) acc_data of
                 Inl f \<Rightarrow> Inl f
               | Inr (n2, w2) \<Rightarrow> if n2 \<noteq> 1 then Inr (False, w2) else Inr (True, w2))))"

text \<open>\<open>pcap_writer_close\<close>: \<open>fclose\<close> releases the stream; the file keeps its bytes.\<close>

definition pcap_writer_close :: "writer_state \<Rightarrow> writer_state" where
  "pcap_writer_close w = (if pcap_file w \<noteq> None then w\<lparr>pcap_file := None\<rparr> else w)"


section \<open>The capture session (\<open>handshake_capture.c\<close>)\<close>

subsection \<open>Received frames and the EAPOL filter\<close>

text \<open>
  \<open>wifi_promiscuous_pkt_t\<close> as the callback uses it: the length field of
  \<open>rx_ctrl\<close> (stored by the callback in a \<open>uint16_t\<close>) and the payload bytes the
  driver delivers. Reading \<open>payload[i]\<close> at or beyond the delivered bytes is a fault
  (see \<open>fault\<close> above).
\<close>

record wifi_promiscuous_pkt_t =
  sig_len :: u16
  payload :: "byte list"

definition rd :: "byte list \<Rightarrow> nat \<Rightarrow> fault + byte" where
  "rd buf i = (if i < length buf then Inr (buf ! i) else Inl (OutOfBounds i))"

text \<open>
  The chain \<open>llc[0] == c0 && llc[1] == c1 && ...\<close>: bytes are read from left to
  right and the first mismatch stops the reading.
\<close>

fun llc_match :: "byte list \<Rightarrow> nat \<Rightarrow> byte list \<Rightarrow> fault + bool" where
  "llc_match buf off [] = Inr True"
| "llc_match buf off (c # cs) =
     (case rd buf off of
        Inl f \<Rightarrow> Inl f
      | Inr b \<Rightarrow> if b = c then llc_match buf (Suc off) cs else Inr False)"

definition eapol_llc :: "byte list" where
  "eapol_llc = [0xAA, 0xAA, 0x03, 0x00, 0x0c, 0x00, 0x88, 0x8e]"

text \<open>
  The filter of \<open>promisc_cb\<close> (lines 60 to 79): \<open>Inr True\<close> when the callback goes
  on to call \<open>pcap_writer_write_packet\<close>, \<open>Inr False\<close> when it returns without.
  The two bytes of the frame control are read before the length is looked at; C does not
  fix which of the two is read first, the model reads offset 0 first.
\<close>

definition promisc_cb_retain :: "wifi_promiscuous_pkt_t \<Rightarrow> fault + bool" where
  "promisc_cb_retain pkt =
     (let len = sig_len pkt in
      case rd (payload pkt) 0 of
        Inl f \<Rightarrow> Inl f
      | Inr p0 \<Rightarrow>
          (case rd (payload pkt) 1 of
             Inl f \<Rightarrow> Inl f
           | Inr p1 \<Rightarrow>
               (let fc = (ucast p0 OR push_bit 8 (ucast p1) :: u16);
                    frame_type = (ucast (drop_bit 2 fc AND 3) :: byte)
                in if frame_type \<noteq> 2 then Inr False
                   else if len < 30 then Inr False
                   else llc_match (payload pkt) 24 eapol_llc)))"

subsection \<open>The radio driver\<close>

text \<open>
  The driver is outside the repository. The model keeps what the session asks of it:
  the mode and callback last requested, the station address, and every call in order.
  The session discards the status code of every driver call, so the model takes each
  request to take effect. \<open>esp_wifi_set_promiscuous_rx_cb\<close> returns the callback
  registered before, as the assignment to \<open>orig_cb\<close> expects.
\<close>

datatype rx_cb = PROMISC_CB | FOREIGN_CB

datatype radio_call =
    Set_promiscuous bool
  | Wifi_stop
  | Wifi_start
  | Set_channel byte
  | Set_promiscuous_rx_cb "rx_cb option"
  | Get_mac
  | Tx_80211 "byte list"

record radio_state =
  promiscuous :: bool
  running :: bool
  rx_callback :: "rx_cb option"
  sta_mac :: "byte list"
  calls :: "radio_call list"

definition esp_wifi_set_promiscuous :: "radio_state \<Rightarrow> bool \<Rightarrow> radio_state" where
  "esp_wifi_set_promiscuous r en = r\<lparr>promiscuous := en, calls := calls r @ [Set_promiscuous en]\<rparr>"

definition esp_wifi_stop :: "radio_state \<Rightarrow> radio_state" where
  "esp_wifi_stop r = r\<lparr>running := False, calls := calls r @ [Wifi_stop]\<rparr>"

definition esp_wifi_start :: "radio_state \<Rightarrow> radio_state" where
  "esp_wifi_start r = r\<lparr>running := True, calls := calls r @ [Wifi_start]\<rparr>"

definition esp_wifi_set_channel :: "radio_state \<Rightarrow> byte \<Rightarrow> radio_state" where
  "esp_wifi_set_channel r ch = r\<lparr>calls := calls r @ [Set_channel ch]\<rparr>"

definition esp_wifi_set_promiscuous_rx_cb ::
    "radio_state \<Rightarrow> rx_cb option \<Rightarrow> rx_cb option \<times> radio_state" where
  "esp_wifi_set_promiscuous_rx_cb r cb =
     (rx_callback r, r\<lparr>rx_callback := cb, calls := calls r @ [Set_promiscuous_rx_cb cb]\<rparr>)"

definition esp_wifi_get_mac :: "radio_state \<Rightarrow> byte list \<times> radio_state" where
  "esp_wifi_get_mac r = (sta_mac r, r\<lparr>calls := calls r @ [Get_mac]\<rparr>)"

definition esp_wifi_80211_tx :: "radio_state \<Rightarrow> byte list \<Rightarrow> radio_state" where
  "esp_wifi_80211_tx r frame = r\<lparr>calls := calls r @ [Tx_80211 frame]\<rparr>"

subsection \<open>Session state\<close>

datatype esp_err_t = ESP_OK | ESP_FAIL | ESP_ERR_INVALID_STATE

record world =
  g_capturing :: bool
  g_target_bssid :: "byte list"
  g_target_channel :: byte
  orig_cb :: "rx_cb option"
  writer :: writer_state
  radio :: radio_state

subsection \<open>Deauthentication frames\<close>

text \<open>
  \<open>memcpy(&dst[off], src, n)\<close> on byte arrays. The source calls it with \<open>n = 6\<close>
  on addresses of six bytes, and \<open>off + n\<close> stays inside \<open>dst\<close> at every call.
\<close>

definition memcpy :: "byte list \<Rightarrow> nat \<Rightarrow> byte list \<Rightarrow> nat \<Rightarrow> byte list" where
  "memcpy dst off src n = take off dst @ take n src @ drop (off + n) dst"

text \<open>The frame \<open>send_deauth_frame\<close> assembles in its local array (lines 37 to 47).\<close>

definition deauth_frame :: "byte list \<Rightarrow> byte list \<Rightarrow> byte list \<Rightarrow> byte list" where
  "deauth_frame dest src bssid =
     (let d0 = replicate 26 (0 :: byte);
          d1 = d0[0 := 0xc0];
          d2 = memcpy d1 4 dest 6;
          d3 = memcpy d2 10 src 6;
          d4 = memcpy d3 16 bssid 6;
          d5 = d4[24 := 0x07];
          d6 = d5[25 := 0x00]
      in d6)"

definition send_deauth_frame :: "world \<Rightarrow> byte list \<Rightarrow> byte list \<Rightarrow> byte list \<Rightarrow> world" where
  "send_deauth_frame w dest src bssid =
     w\<lparr>radio := esp_wifi_80211_tx (radio w) (deauth_frame dest src bssid)\<rparr>"

subsection \<open>The receive callback\<close>

text \<open>
  \<open>promisc_cb\<close>. \<open>tv\<close>, \<open>acc_hdr\<close> and \<open>acc_data\<close> are the clock reading and
  the two write outcomes that \<open>pcap_writer_write_packet\<close> meets when it is called. The
  value \<open>pcap_writer_write_packet\<close> returns (\<open>ok\<close>) is dropped, as in the source.
\<close>

definition promisc_cb ::
    "world \<Rightarrow> wifi_promiscuous_pkt_t \<Rightarrow> timeval \<Rightarrow> nat \<Rightarrow> nat \<Rightarrow> fault + world" where
  "promisc_cb w pkt tv acc_hdr acc_data =
     (if \<not> g_capturing w then Inr w
      else
        (case promisc_cb_retain pkt of
           Inl f \<Rightarrow> Inl f
         | Inr False \<Rightarrow> Inr w
         | Inr True \<Rightarrow>
             (case pcap_writer_write_packet (writer w) (payload pkt) (ucast (sig_len pkt))
                     tv acc_hdr acc_data of
                Inl f \<Rightarrow> Inl f
              | Inr (ok, wr) \<Rightarrow> Inr (w\<lparr>writer := wr\<rparr>))))"

subsection \<open>What the surroundings supply to one session\<close>

text \<open>
  One frame the radio delivers, with what the writer meets if the frame is written.
\<close>

record rx_event =
  rx_pkt :: wifi_promiscuous_pkt_t
  rx_tv :: timeval
  rx_acc_hdr :: nat
  rx_acc_data :: nat

text \<open>
  \<open>fopen_ok\<close> and \<open>acc_header\<close> are the outcomes of opening the capture file and of
  writing its header. \<open>t_start\<close> is \<open>esp_timer_get_time()\<close> at line 119, in
  microseconds since boot. \<open>ticks\<close> has one entry for each evaluation of the loop
  condition: the value \<open>esp_timer_get_time()\<close> returns there, and the frames the
  radio delivers while the loop body that follows runs (the callback runs while the
  loop sleeps in \<open>vTaskDelay\<close>). A finite list describes a finite part of a run.
\<close>

record env_t =
  fopen_ok :: bool
  acc_header :: nat
  t_start :: nat
  ticks :: "(nat \<times> rx_event list) list"

text \<open>
  The driver hands a frame to the registered callback while promiscuous mode is on.
\<close>

fun deliver :: "world \<Rightarrow> rx_event list \<Rightarrow> fault + world" where
  "deliver w [] = Inr w"
| "deliver w (e # es) =
     (if promiscuous (radio w) \<and> rx_callback (radio w) = Some PROMISC_CB then
        (case promisc_cb w (rx_pkt e) (rx_tv e) (rx_acc_hdr e) (rx_acc_data e) of
           Inl f \<Rightarrow> Inl f
         | Inr w' \<Rightarrow> deliver w' es)
      else deliver w es)"

subsection \<open>The session\<close>

definition brc :: "byte list" where
  "brc = [0xff, 0xff, 0xff, 0xff, 0xff, 0xff]"

text \<open>
  The loop of step 5. The comparison is made in 64-bit signed arithmetic: the clock is
  an \<open>int64_t\<close>, and \<open>start_ms\<close> and \<open>duration_ms\<close> are converted to it. The
  result is \<open>None\<close> when the list of clock readings ends before the loop does.
\<close>

fun deauth_loop ::
    "world \<Rightarrow> byte list \<Rightarrow> u32 \<Rightarrow> u32 \<Rightarrow> (nat \<times> rx_event list) list \<Rightarrow> (fault + world) option" where
  "deauth_loop w esp_mac start_ms duration_ms [] = None"
| "deauth_loop w esp_mac start_ms duration_ms ((now, evs) # rest) =
     (if int (now div 1000) - uint start_ms < uint duration_ms then
        (let w1 = send_deauth_frame w brc esp_mac (g_target_bssid w)
         in case deliver w1 evs of
              Inl f \<Rightarrow> Some (Inl f)
            | Inr w2 \<Rightarrow> deauth_loop w2 esp_mac start_ms duration_ms rest)
      else Some (Inr w))"

text \<open>Steps 6 to 8 of \<open>handshake_deauth_and_capture\<close> (lines 129 to 141).\<close>

definition teardown :: "world \<Rightarrow> world" where
  "teardown w =
     (let w1 = w\<lparr>radio := esp_wifi_set_promiscuous (radio w) False\<rparr>;
          w2 = w1\<lparr>radio := snd (esp_wifi_set_promiscuous_rx_cb (radio w1) None)\<rparr>;
          w3 = w2\<lparr>writer := pcap_writer_close (writer w2)\<rparr>;
          w4 = w3\<lparr>g_capturing := False\<rparr>;
          w5 = w4\<lparr>radio := esp_wifi_stop (radio w4)\<rparr>;
          w6 = w5\<lparr>radio := esp_wifi_start (radio w5)\<rparr>
      in w6)"

text \<open>Steps 1 and 2 (lines 94 to 100).\<close>

definition lock_channel :: "world \<Rightarrow> world" where
  "lock_channel w =
     (let w1 = w\<lparr>radio := esp_wifi_set_promiscuous (radio w) False\<rparr>;
          w2 = w1\<lparr>radio := esp_wifi_stop (radio w1)\<rparr>;
          w3 = w2\<lparr>radio := esp_wifi_set_channel (radio w2) (g_target_channel w2)\<rparr>;
          w4 = w3\<lparr>radio := esp_wifi_start (radio w3)\<rparr>;
          w5 = w4\<lparr>radio := esp_wifi_set_promiscuous (radio w4) True\<rparr>
      in w5)"

text \<open>
  Step 4 and the reading of the station address (lines 109 to 116): the result is the
  address and the state in which the loop starts.
\<close>

definition activate :: "world \<Rightarrow> byte list \<times> world" where
  "activate w =
     (let (prev, r1) = esp_wifi_set_promiscuous_rx_cb (radio w) (Some PROMISC_CB);
          w1 = w\<lparr>radio := r1, orig_cb := prev\<rparr>;
          w2 = w1\<lparr>g_capturing := True\<rparr>;
          (esp_mac, r3) = esp_wifi_get_mac (radio w2);
          w3 = w2\<lparr>radio := r3\<rparr>
      in (esp_mac, w3))"

text \<open>
  \<open>handshake_deauth_and_capture\<close>. \<open>Some (Inr (e, w'))\<close>: the call returns \<open>e\<close> in
  state \<open>w'\<close>. \<open>Some (Inl f)\<close>: the run ends in the fault \<open>f\<close> of the callback.
  \<open>None\<close>: the clock readings supplied do not reach the end of the loop.
\<close>

definition handshake_deauth_and_capture ::
    "world \<Rightarrow> byte list \<Rightarrow> byte \<Rightarrow> u32 \<Rightarrow> env_t \<Rightarrow> (fault + esp_err_t \<times> world) option" where
  "handshake_deauth_and_capture w bssid channel duration_ms env =
     (if g_capturing w then Some (Inr (ESP_ERR_INVALID_STATE, w))
      else
        (let w1 = w\<lparr>g_target_bssid := memcpy (g_target_bssid w) 0 bssid 6\<rparr>;
             w2 = w1\<lparr>g_target_channel := channel\<rparr>;
             w3 = lock_channel w2;
             (ok, wr) = pcap_writer_init (writer w3) ''/spiffs/handshake.pcap''
                          (fopen_ok env) (acc_header env);
             w4 = w3\<lparr>writer := wr\<rparr>
         in if \<not> ok then Some (Inr (ESP_FAIL, w4))
            else
              (let (esp_mac, w5) = activate w4;
                   start_ms = (word_of_nat (t_start env div 1000) :: u32)
               in case deauth_loop w5 esp_mac start_ms duration_ms (ticks env) of
                    None \<Rightarrow> None
                  | Some (Inl f) \<Rightarrow> Some (Inl f)
                  | Some (Inr w6) \<Rightarrow> Some (Inr (ESP_OK, teardown w6)))))"

section \<open>The request handler that starts a session (\<open>http_server.c\<close>)\<close>

datatype http_response =
    Redirect_scan
  | Error_400 string
  | Error_500 string
  | Page_done

definition handshake_exists :: "world \<Rightarrow> bool" where
  "handshake_exists w = (files (writer w) ''/spiffs/handshake.pcap'' \<noteq> None)"

text \<open>
  \<open>check_and_clean\<close>: the flag it returns and the state after \<open>unlink\<close>. When the
  flag is true it has sent the redirect to \<open>/scan\<close>.
\<close>

definition check_and_clean :: "world \<Rightarrow> string \<Rightarrow> bool \<times> world" where
  "check_and_clean w uri =
     (if handshake_exists w then
        (if take 9 uri \<noteq> ''/download'' then
           (True,
            w\<lparr>writer := (writer w)\<lparr>files := (files (writer w))(''/spiffs/handshake.pcap'' := None)\<rparr>\<rparr>)
         else (False, w))
      else (False, w))"

text \<open>
  \<open>atoi\<close> of the C library: white space, an optional sign, then decimal digits. The
  strings it is given here fit a buffer of 8 bytes, so the value fits an \<open>int\<close>.
\<close>

definition isspace :: "char \<Rightarrow> bool" where
  "isspace c = (c \<in> set [CHR '' '', CHR 0x09, CHR 0x0A, CHR 0x0B, CHR 0x0C, CHR 0x0D])"

definition isdigit :: "char \<Rightarrow> bool" where
  "isdigit c = (48 \<le> (of_char c :: nat) \<and> (of_char c :: nat) \<le> 57)"

definition digits_value :: "string \<Rightarrow> int" where
  "digits_value s =
     foldl (\<lambda>acc c. acc * 10 + (of_char c - 48)) 0 (takeWhile isdigit s)"

definition atoi :: "string \<Rightarrow> int" where
  "atoi s =
     (case dropWhile isspace s of
        [] \<Rightarrow> 0
      | c # cs \<Rightarrow>
          if c = CHR ''-'' then - digits_value cs
          else if c = CHR ''+'' then digits_value cs
          else digits_value (c # cs))"

text \<open>
  \<open>attack_get_handler\<close>. \<open>uri\<close> is the request's path; \<open>ssid\<close>, \<open>chan_str\<close> and
  \<open>bssid_str\<close> are what \<open>httpd_query_key_value\<close> leaves in the three buffers (empty
  for a missing key); \<open>vals\<close> are the numbers \<open>sscanf\<close> converts from the address
  string, so that \<open>sscanf\<close> returns \<open>length vals\<close>. The result is the status, the
  response that was sent and the state.
\<close>

definition attack_get_handler ::
    "world \<Rightarrow> string \<Rightarrow> string \<Rightarrow> string \<Rightarrow> string \<Rightarrow> int list \<Rightarrow> env_t
      \<Rightarrow> (fault + esp_err_t \<times> http_response \<times> world) option" where
  "attack_get_handler w uri ssid chan_str bssid_str vals env =
     (case check_and_clean w uri of
        (True, w1) \<Rightarrow> Some (Inr (ESP_OK, Redirect_scan, w1))
      | (False, w1) \<Rightarrow>
          if length ssid = 0 \<or> length chan_str = 0 \<or> length bssid_str \<noteq> 17 then
            Some (Inr (ESP_FAIL, Error_400 ''Bad parameters'', w1))
          else
            (let channel = atoi chan_str
             in if channel < 1 \<or> channel > 13 then
                  Some (Inr (ESP_FAIL, Error_400 ''Invalid channel'', w1))
                else if length vals \<noteq> 6 then
                  Some (Inr (ESP_FAIL, Error_400 ''Bad BSSID'', w1))
                else
                  (let bssid = map word_of_int vals
                   in case handshake_deauth_and_capture w1 bssid (word_of_int channel) 20000 env of
                        None \<Rightarrow> None
                      | Some (Inl f) \<Rightarrow> Some (Inl f)
                      | Some (Inr (ret, w2)) \<Rightarrow>
                          if ret \<noteq> ESP_OK then
                            Some (Inr (ESP_FAIL, Error_500 ''Capture failed'', w2))
                          else Some (Inr (ESP_OK, Page_done, w2)))))"

section \<open>Sequences of writes, the record format, and sample inputs\<close>

text \<open>
  A caller that writes one frame after the other: every frame is passed with its own
  length, and each call meets its own clock reading and write outcomes. The result is the
  list of values the calls return and the final state.
\<close>

fun write_all ::
    "writer_state \<Rightarrow> (byte list \<times> timeval \<times> nat \<times> nat) list
      \<Rightarrow> fault + bool list \<times> writer_state" where
  "write_all w [] = Inr ([], w)"
| "write_all w ((data, tv, acc_hdr, acc_data) # ps) =
     (case pcap_writer_write_packet w data (word_of_nat (length data)) tv acc_hdr acc_data of
        Inl f \<Rightarrow> Inl f
      | Inr (ok, w1) \<Rightarrow>
          (case write_all w1 ps of
             Inl f \<Rightarrow> Inl f
           | Inr (oks, w2) \<Rightarrow> Inr (ok # oks, w2)))"

text \<open>
  The record the capture format prescribes for a frame (specification, section 6):
  seconds, microseconds, captured length, original length, each 32 bits little-endian,
  then the frame's bytes.
\<close>

definition capture_record :: "timeval \<Rightarrow> byte list \<Rightarrow> byte list" where
  "capture_record tv data =
     le32 (word_of_int (tv_sec tv)) @ le32 (word_of_int (tv_usec tv))
     @ le32 (word_of_nat (length data)) @ le32 (word_of_nat (length data)) @ data"

definition fresh_writer :: writer_state where
  "fresh_writer = \<lparr>pcap_file = None, files = (\<lambda>p. None)\<rparr>"

definition two_frames :: "(byte list \<times> timeval \<times> nat \<times> nat) list" where
  "two_frames = [([1, 2, 3], \<lparr>tv_sec = 5, tv_usec = 7\<rparr>, 16, 3),
                 ([9], \<lparr>tv_sec = 6, tv_usec = 0\<rparr>, 20, 1)]"

text \<open>
  Sample frames, 34 bytes each unless said otherwise: an EAPOL data frame; the same frame
  with the last byte of the LLC/SNAP pattern changed; the same bytes under a beacon's
  frame control; a frame of one byte; and a data frame of 30 bytes that ends after the
  first six bytes of the pattern. In each, \<open>sig_len\<close> is the number of payload bytes.
\<close>

definition eapol_pkt :: wifi_promiscuous_pkt_t where
  "eapol_pkt = \<lparr>sig_len = 34, payload =
     [0x08, 0x02, 0, 0, 1, 2, 3, 4, 5, 6, 7, 8, 9, 10, 11, 12, 7, 8, 9, 10, 11, 12, 0, 0,
      0xAA, 0xAA, 0x03, 0x00, 0x0C, 0x00, 0x88, 0x8E, 0x01, 0x03]\<rparr>"

definition mutated_pkt :: wifi_promiscuous_pkt_t where
  "mutated_pkt = \<lparr>sig_len = 34, payload =
     [0x08, 0x02, 0, 0, 1, 2, 3, 4, 5, 6, 7, 8, 9, 10, 11, 12, 7, 8, 9, 10, 11, 12, 0, 0,
      0xAA, 0xAA, 0x03, 0x00, 0x0C, 0x00, 0x88, 0x8F, 0x01, 0x03]\<rparr>"

definition beacon_pkt :: wifi_promiscuous_pkt_t where
  "beacon_pkt = \<lparr>sig_len = 34, payload =
     [0x80, 0x00, 0, 0, 1, 2, 3, 4, 5, 6, 7, 8, 9, 10, 11, 12, 7, 8, 9, 10, 11, 12, 0, 0,
      0xAA, 0xAA, 0x03, 0x00, 0x0C, 0x00, 0x88, 0x8E, 0x01, 0x03]\<rparr>"

definition runt_pkt :: wifi_promiscuous_pkt_t where
  "runt_pkt = \<lparr>sig_len = 1, payload = [0x08]\<rparr>"

definition pkt30 :: wifi_promiscuous_pkt_t where
  "pkt30 = \<lparr>sig_len = 30, payload =
     [0x08, 0x02, 0, 0, 1, 2, 3, 4, 5, 6, 7, 8, 9, 10, 11, 12, 7, 8, 9, 10, 11, 12, 0, 0,
      0xAA, 0xAA, 0x03, 0x00, 0x0C, 0x00]\<rparr>"

text \<open>The EAPOL frame again, 34 bytes, under a length field that says 40.\<close>

definition overlong_pkt :: wifi_promiscuous_pkt_t where
  "overlong_pkt = eapol_pkt\<lparr>sig_len := 40\<rparr>"

text \<open>
  Sample states: the device at rest (station mode, no capture file), and the same device
  in the middle of a session, with the capture file open and the callback registered.
\<close>

definition idle_radio :: radio_state where
  "idle_radio = \<lparr>promiscuous = False, running = True, rx_callback = None,
                  sta_mac = [0x24, 0x0a, 0xc4, 0x00, 0x00, 0x01], calls = []\<rparr>"

definition idle_world :: world where
  "idle_world = \<lparr>g_capturing = False, g_target_bssid = [0, 0, 0, 0, 0, 0],
                  g_target_channel = 1, orig_cb = None, writer = fresh_writer,
                  radio = idle_radio\<rparr>"

definition active_world :: world where
  "active_world = idle_world\<lparr>g_capturing := True,
     writer := snd (pcap_writer_init fresh_writer ''/spiffs/handshake.pcap'' True 24),
     radio := idle_radio\<lparr>promiscuous := True, rx_callback := Some PROMISC_CB\<rparr>\<rparr>"

definition ap_bssid :: "byte list" where
  "ap_bssid = [0x00, 0x11, 0x22, 0x33, 0x44, 0x55]"

text \<open>
  Sample surroundings for a session started at one second after boot: one in which the
  capture file cannot be opened; one in which the first clock reading already ends the
  loop; and one in which an EAPOL frame arrives during the first pass of the loop and the
  file system takes the record header but only 10 bytes of the frame.
\<close>

definition env_fopen_fails :: env_t where
  "env_fopen_fails = \<lparr>fopen_ok = False, acc_header = 24, t_start = 1000000, ticks = []\<rparr>"

definition env_no_time :: env_t where
  "env_no_time = \<lparr>fopen_ok = True, acc_header = 24, t_start = 1000000, ticks = [(1000000, [])]\<rparr>"

definition env_write_fails :: env_t where
  "env_write_fails = \<lparr>fopen_ok = True, acc_header = 24, t_start = 1000000,
     ticks = [(1000000, [\<lparr>rx_pkt = eapol_pkt, rx_tv = \<lparr>tv_sec = 5, tv_usec = 7\<rparr>,
                           rx_acc_hdr = 16, rx_acc_data = 10\<rparr>]),
              (1010000, [])]\<rparr>"

text \<open>What a finished call shows: the status returned, the state, the capture file.\<close>

definition returned :: "(fault + esp_err_t \<times> world) option \<Rightarrow> esp_err_t option" where
  "returned res = (case res of Some (Inr (e, w)) \<Rightarrow> Some e | _ \<Rightarrow> None)"

definition final_world :: "(fault + esp_err_t \<times> world) option \<Rightarrow> world option" where
  "final_world res = (case res of Some (Inr (e, w)) \<Rightarrow> Some w | _ \<Rightarrow> None)"

definition capture_file :: "(fault + esp_err_t \<times> world) option \<Rightarrow> byte list option" where
  "capture_file res =
     (case final_world res of None \<Rightarrow> None | Some w \<Rightarrow> files (writer w) ''/spiffs/handshake.pcap'')"

text \<open>
  The passes of the loop of step 5: the clock readings at which the loop condition holds,
  up to the first reading at which it fails. Each pass sends one frame and then sleeps.
\<close>

definition passes :: "env_t \<Rightarrow> u32 \<Rightarrow> (nat \<times> rx_event list) list" where
  "passes env duration_ms =
     takeWhile (\<lambda>(now, evs). int (now div 1000)
                               - uint (word_of_nat (t_start env div 1000) :: u32) < uint duration_ms)
       (ticks env)"

text \<open>
  The bytes that reach the capture file when a frame is handed to the writer and the sink
  behaves as the event says: the record header and as much of the frame as the sink
  takes, or, when the sink does not take the whole record header, the part of it that
  the sink takes.
\<close>

definition bytes_appended :: "rx_event \<Rightarrow> byte list" where
  "bytes_appended e =
     (let hdr = packet_header_bytes
                  \<lparr>ts_sec = word_of_int (tv_sec (rx_tv e)), ts_usec = word_of_int (tv_usec (rx_tv e)),
                   incl_len = ucast (sig_len (rx_pkt e)), orig_len = ucast (sig_len (rx_pkt e))\<rparr>
      in if 16 \<le> rx_acc_hdr e then hdr @ take (rx_acc_data e) (payload (rx_pkt e))
         else take (rx_acc_hdr e) hdr)"

definition retained :: "rx_event \<Rightarrow> bool" where
  "retained e \<longleftrightarrow> promisc_cb_retain (rx_pkt e) = Inr True"

section \<open>Properties of the capture writer\<close>

lemma length_le32 [simp]: "length (le32 v) = 4"
  by (simp add: le32_def)

lemma length_le16 [simp]: "length (le16 v) = 2"
  by (simp add: le16_def)

lemma le32_not_Nil [simp]: "le32 v \<noteq> []"
  by (simp add: le32_def)

lemma rd_le32_le32: "rd_le32 (le32 v) = v"
  unfolding rd_le32_def le32_def
proof (rule bit_word_eqI)
  fix n assume "n < LENGTH(32)"
  then consider "n < 8" | "8 \<le> n \<and> n < 16" | "16 \<le> n \<and> n < 24" | "24 \<le> n \<and> n < 32"
    by fastforce
  then show "bit (ucast ([ucast v, ucast (drop_bit 8 v), ucast (drop_bit 16 v), ucast (drop_bit 24 v) :: byte] ! 0) OR
           push_bit 8 (ucast ([ucast v, ucast (drop_bit 8 v), ucast (drop_bit 16 v), ucast (drop_bit 24 v) :: byte] ! 1)) OR
           push_bit 16 (ucast ([ucast v, ucast (drop_bit 8 v), ucast (drop_bit 16 v), ucast (drop_bit 24 v) :: byte] ! 2)) OR
           push_bit 24 (ucast ([ucast v, ucast (drop_bit 8 v), ucast (drop_bit 16 v), ucast (drop_bit 24 v) :: byte] ! 3)) :: u32) n = bit v n"
    by cases (auto simp add: bit_simps)
qed

lemma rd_le32_append: "rd_le32 (le32 v @ rest) = v"
  using rd_le32_le32 [of v] by (simp add: rd_le32_def le32_def)

lemma global_header_bytes_gh:
  "global_header_bytes gh =
     [0xd4, 0xc3, 0xb2, 0xa1, 0x02, 0x00, 0x04, 0x00, 0x00, 0x00, 0x00, 0x00,
      0x00, 0x00, 0x00, 0x00, 0xff, 0xff, 0x00, 0x00, 0x69, 0x00, 0x00, 0x00]"
proof -
  have "global_header_bytes gh =
          le32 0xa1b2c3d4 @ le16 2 @ le16 4 @ le32 0 @ le32 0 @ le32 0xffff @ le32 105"
    by (simp add: global_header_bytes_def gh_def)
  moreover have "le32 0xa1b2c3d4 = [0xd4, 0xc3, 0xb2, 0xa1]" "le32 0 = [0, 0, 0, 0]"
    "le32 0xffff = [0xff, 0xff, 0, 0]" "le32 105 = [0x69, 0, 0, 0]"
    by (simp_all add: le32_def)
  moreover have "le16 2 = [2, 0]" "le16 4 = [4, 0]"
    by (simp_all add: le16_def)
  ultimately show ?thesis by simp
qed

lemma length_global_header_bytes [simp]: "length (global_header_bytes h) = 24"
  by (simp add: global_header_bytes_def)

lemma length_packet_header_bytes [simp]: "length (packet_header_bytes h) = 16"
  by (simp add: packet_header_bytes_def)

lemma fwrite_object_open:
  "pcap_file w = Some p \<Longrightarrow> files w p = Some old \<Longrightarrow>
   fwrite_object w bytes acc =
     (if bytes \<noteq> [] \<and> length bytes \<le> acc then 1 else 0,
      w\<lparr>files := (files w)(p \<mapsto> old @ take acc bytes)\<rparr>)"
  by (simp add: fwrite_object_def)

text \<open>What \<open>pcap_writer_init\<close> returns, case by case.\<close>

lemma init_result:
  "pcap_writer_init w fname ok acc =
     (if ok \<and> 24 \<le> acc
      then (True, w\<lparr>pcap_file := Some fname, files := (files w)(fname \<mapsto> global_header_bytes gh)\<rparr>)
      else (False, if ok then w\<lparr>pcap_file := None,
                              files := (files w)(fname \<mapsto> take acc (global_header_bytes gh))\<rparr>
                   else w\<lparr>pcap_file := None\<rparr>))"
proof -
  have ne: "global_header_bytes gh \<noteq> []"
    using length_global_header_bytes [of gh] by fastforce
  show ?thesis
    by (simp add: pcap_writer_init_def fwrite_object_def Let_def ne)
qed

text \<open>
  What \<open>pcap_writer_write_packet\<close> returns on an open stream, when the buffer holds the
  bytes asked for, and when it does not.
\<close>

lemma write_packet_result:
  assumes p: "pcap_file w = Some p" and f: "files w p = Some old"
    and fits: "unat len \<le> length data"
  shows "pcap_writer_write_packet w data len tv a1 a2 =
     Inr (let hdr = packet_header_bytes \<lparr>ts_sec = word_of_int (tv_sec tv),
                  ts_usec = word_of_int (tv_usec tv), incl_len = len, orig_len = len\<rparr>
      in if 16 \<le> a1 then
           (unat len \<noteq> 0 \<and> unat len \<le> a2,
            w\<lparr>files := (files w)(p \<mapsto> old @ hdr @ take (min a2 (unat len)) data)\<rparr>)
         else (False, w\<lparr>files := (files w)(p \<mapsto> old @ take a1 hdr)\<rparr>))"
proof -
  let ?hdr = "packet_header_bytes \<lparr>ts_sec = word_of_int (tv_sec tv),
                  ts_usec = word_of_int (tv_usec tv), incl_len = len, orig_len = len\<rparr>"
  let ?w1 = "w\<lparr>files := (files w)(p \<mapsto> old @ ?hdr)\<rparr>"
  have ne: "?hdr \<noteq> []"
    using length_packet_header_bytes [of "\<lparr>ts_sec = word_of_int (tv_sec tv),
                  ts_usec = word_of_int (tv_usec tv), incl_len = len, orig_len = len\<rparr>"]
    by fastforce
  show ?thesis
  proof (cases "16 \<le> a1")
    case True
    have f1: "fwrite_object w ?hdr a1 = (1, ?w1)"
      using fwrite_object_open [OF p f, of ?hdr a1] True ne by simp
    have f2: "fwrite ?w1 data (unat len) a2 =
                Inr (if unat len \<noteq> 0 \<and> unat len \<le> a2 then 1 else 0,
                     ?w1\<lparr>files := (files ?w1)(p \<mapsto> (old @ ?hdr) @ take (min a2 (unat len)) data)\<rparr>)"
    proof -
      have o: "fwrite_object ?w1 (take (unat len) data) a2 =
                 (if take (unat len) data \<noteq> [] \<and> length (take (unat len) data) \<le> a2 then 1 else 0,
                  ?w1\<lparr>files := (files ?w1)(p \<mapsto> (old @ ?hdr) @ take a2 (take (unat len) data))\<rparr>)"
        by (rule fwrite_object_open) (simp_all add: p)
      have m: "min (length data) (unat len) = unat len"
        using fits by simp
      have d: "data = [] \<Longrightarrow> unat len = 0"
        using fits by simp
      show ?thesis
        using fits d unfolding fwrite_def o by (auto simp add: m)
    qed
    show ?thesis
      by (simp add: pcap_writer_write_packet_def p f1 f2 True Let_def del: One_nat_def)
  next
    case False
    have f1: "fwrite_object w ?hdr a1 = (0, w\<lparr>files := (files w)(p \<mapsto> old @ take a1 ?hdr)\<rparr>)"
      using fwrite_object_open [OF p f, of ?hdr a1] False by simp
    show ?thesis
      by (simp add: pcap_writer_write_packet_def p f1 False Let_def)
  qed
qed

lemma write_packet_over_read:
  assumes p: "pcap_file w = Some p" and f: "files w p = Some old"
    and short: "length data < unat len" and hdr: "16 \<le> a1"
  shows "pcap_writer_write_packet w data len tv a1 a2 = Inl (OutOfBounds (length data))"
proof -
  let ?hdr = "packet_header_bytes \<lparr>ts_sec = word_of_int (tv_sec tv),
                  ts_usec = word_of_int (tv_usec tv), incl_len = len, orig_len = len\<rparr>"
  have ne: "?hdr \<noteq> []"
    using length_packet_header_bytes [of "\<lparr>ts_sec = word_of_int (tv_sec tv),
                  ts_usec = word_of_int (tv_usec tv), incl_len = len, orig_len = len\<rparr>"]
    by fastforce
  have f1: "fwrite_object w ?hdr a1 = (1, w\<lparr>files := (files w)(p \<mapsto> old @ ?hdr)\<rparr>)"
    using fwrite_object_open [OF p f, of ?hdr a1] hdr ne by simp
  show ?thesis
    by (simp add: pcap_writer_write_packet_def p f1 Let_def fwrite_def short del: One_nat_def)
qed

lemma unat_ucast_sig_len: "unat (ucast (x :: u16) :: u32) = unat x"
proof -
  have "unat x < 2 ^ 16"
    using unsigned_less [of x, where ?'a = nat] by simp
  then have "unat x < 2 ^ 32"
    by simp
  then have "take_bit 32 (unat x) = unat x"
    by (simp add: take_bit_nat_eq_self)
  then show ?thesis
    by (simp add: unsigned_ucast_eq)
qed

lemma write_packet_no_fault:
  assumes "unat len \<le> length data"
  shows "\<exists>ok wr. pcap_writer_write_packet w data len tv a1 a2 = Inr (ok, wr)"
  using assms
  by (auto simp add: pcap_writer_write_packet_def fwrite_def Let_def split: prod.splits)

lemma unat_word_of_nat_le: "unat (word_of_nat n :: u32) \<le> n"
  by (simp add: unat_of_nat)

text \<open>One call of a sequence: it does not fault, the stream stays open, the file grows.\<close>

lemma write_packet_step:
  assumes p: "pcap_file w = Some p" and f: "files w p = Some old"
  shows "\<exists>ok w1 s1.
           pcap_writer_write_packet w data (word_of_nat (length data)) tv a1 a2 = Inr (ok, w1)
         \<and> pcap_file w1 = Some p \<and> files w1 p = Some (old @ s1)
         \<and> (ok \<longrightarrow> length data < 2 ^ 32 \<longrightarrow> s1 = capture_record tv data)"
proof -
  let ?len = "word_of_nat (length data) :: u32"
  have len: "length data < 2 ^ 32 \<Longrightarrow> unat ?len = length data"
    by (simp add: unat_of_nat)
  let ?hdr = "packet_header_bytes \<lparr>ts_sec = word_of_int (tv_sec tv),
                  ts_usec = word_of_int (tv_usec tv), incl_len = ?len, orig_len = ?len\<rparr>"
  note r = write_packet_result [OF p f unat_word_of_nat_le, of data tv a1 a2]
  show ?thesis
  proof (cases "16 \<le> a1")
    case True
    let ?ok = "unat ?len \<noteq> 0 \<and> unat ?len \<le> a2"
    let ?s1 = "?hdr @ take (min a2 (unat ?len)) data"
    let ?w1 = "w\<lparr>files := (files w)(p \<mapsto> old @ ?s1)\<rparr>"
    from r True have eq: "pcap_writer_write_packet w data ?len tv a1 a2 = Inr (?ok, ?w1)"
      by (simp add: Let_def)
    have "?ok \<longrightarrow> length data < 2 ^ 32 \<longrightarrow> ?s1 = capture_record tv data"
      using len by (auto simp add: capture_record_def packet_header_bytes_def)
    with eq show ?thesis
      by (intro exI [of _ ?ok] exI [of _ ?w1] exI [of _ ?s1]) (simp add: p)
  next
    case False
    let ?s1 = "take a1 ?hdr"
    let ?w1 = "w\<lparr>files := (files w)(p \<mapsto> old @ ?s1)\<rparr>"
    from r False have eq: "pcap_writer_write_packet w data ?len tv a1 a2 = Inr (False, ?w1)"
      by (simp add: Let_def)
    then show ?thesis
      by (intro exI [of _ False] exI [of _ ?w1] exI [of _ ?s1]) (simp add: p)
  qed
qed

text \<open>A whole sequence of calls, by induction on the sequence.\<close>

lemma write_all_run:
  "pcap_file w = Some p \<Longrightarrow> files w p = Some old \<Longrightarrow>
   \<exists>oks w2 suffix.
      write_all w ps = Inr (oks, w2)
    \<and> pcap_file w2 = Some p \<and> files w2 p = Some (old @ suffix)
    \<and> (False \<notin> set oks \<longrightarrow> (\<forall>x \<in> set ps. length (fst x) < 2 ^ 32) \<longrightarrow>
         suffix = concat (map (\<lambda>(data, tv, a1, a2). capture_record tv data) ps))"
proof (induction ps arbitrary: w old)
  case Nil
  then show ?case by simp
next
  case (Cons x ps)
  obtain data tv a1 a2 where x: "x = (data, tv, a1, a2)" by (cases x) auto
  obtain ok w1 s1 where
    step: "pcap_writer_write_packet w data (word_of_nat (length data)) tv a1 a2 = Inr (ok, w1)"
    and p1: "pcap_file w1 = Some p" and f1: "files w1 p = Some (old @ s1)"
    and s1: "ok \<longrightarrow> length data < 2 ^ 32 \<longrightarrow> s1 = capture_record tv data"
    using write_packet_step [OF Cons.prems] by blast
  obtain oks w2 s2 where
    rest: "write_all w1 ps = Inr (oks, w2)"
    and p2: "pcap_file w2 = Some p" and f2: "files w2 p = Some ((old @ s1) @ s2)"
    and s2: "False \<notin> set oks \<longrightarrow> (\<forall>x \<in> set ps. length (fst x) < 2 ^ 32) \<longrightarrow>
         s2 = concat (map (\<lambda>(data, tv, a1, a2). capture_record tv data) ps)"
    using Cons.IH [OF p1 f1] by blast
  have run: "write_all w (x # ps) = Inr (ok # oks, w2)"
    by (simp add: x step rest)
  have "False \<notin> set (ok # oks) \<longrightarrow> (\<forall>x \<in> set (x # ps). length (fst x) < 2 ^ 32) \<longrightarrow>
         s1 @ s2 = concat (map (\<lambda>(data, tv, a1, a2). capture_record tv data) (x # ps))"
    using s1 s2 by (auto simp add: x)
  with run p2 f2 show ?case
    by (metis append.assoc)
qed

lemma capture_record_fields:
  "length (capture_record tv data) = 16 + length data"
  "rd_le32 (drop 8 (capture_record tv data)) = word_of_nat (length data)"
  "rd_le32 (drop 12 (capture_record tv data)) = word_of_nat (length data)"
  "drop 16 (capture_record tv data) = data"
  by (simp_all add: capture_record_def rd_le32_append)

text \<open>
  C3. When \<open>pcap_writer_init\<close> succeeds, the file consists of exactly the 24 header
  bytes: magic \<open>0xA1B2C3D4\<close>, version 2 and 4, time zone 0, accuracy 0, snap length
  \<open>0x0000FFFF\<close> and link type 105, every field low byte first. The stream stays open
  on that file, and whatever frames are written afterwards, accepted or refused, the
  writes run to their end and the file still starts with these 24 bytes: the header is
  written once, first, and is not written again.
\<close>

theorem pcap_writer_init_header:
  assumes "fst (pcap_writer_init w filename ok accepted)"
  shows "files (snd (pcap_writer_init w filename ok accepted)) filename =
           Some [0xd4, 0xc3, 0xb2, 0xa1, 0x02, 0x00, 0x04, 0x00, 0x00, 0x00, 0x00, 0x00,
                 0x00, 0x00, 0x00, 0x00, 0xff, 0xff, 0x00, 0x00, 0x69, 0x00, 0x00, 0x00]
       \<and> pcap_file (snd (pcap_writer_init w filename ok accepted)) = Some filename
       \<and> (\<forall>ps. \<exists>oks w2 suffix.
             write_all (snd (pcap_writer_init w filename ok accepted)) ps = Inr (oks, w2)
           \<and> files w2 filename =
               Some ([0xd4, 0xc3, 0xb2, 0xa1, 0x02, 0x00, 0x04, 0x00, 0x00, 0x00, 0x00, 0x00,
                      0x00, 0x00, 0x00, 0x00, 0xff, 0xff, 0x00, 0x00, 0x69, 0x00, 0x00, 0x00]
                     @ suffix))"
proof -
  let ?w1 = "snd (pcap_writer_init w filename ok accepted)"
  from assms have ok: "ok \<and> 24 \<le> accepted"
    by (simp add: init_result split: if_splits)
  then have p: "pcap_file ?w1 = Some filename"
    and f: "files ?w1 filename = Some (global_header_bytes gh)"
    by (simp_all add: init_result)
  have "\<exists>oks w2 suffix. write_all ?w1 ps = Inr (oks, w2)
          \<and> files w2 filename = Some (global_header_bytes gh @ suffix)"
    for ps
    using write_all_run [OF p f, of ps] by blast
  with p f show ?thesis
    unfolding global_header_bytes_gh by blast
qed

theorem pcap_writer_init_header_witness:
  "fst (pcap_writer_init fresh_writer ''/spiffs/handshake.pcap'' True 24)
   \<and> files (snd (pcap_writer_init fresh_writer ''/spiffs/handshake.pcap'' True 24))
        ''/spiffs/handshake.pcap'' =
       Some [0xd4, 0xc3, 0xb2, 0xa1, 0x02, 0x00, 0x04, 0x00, 0x00, 0x00, 0x00, 0x00,
             0x00, 0x00, 0x00, 0x00, 0xff, 0xff, 0x00, 0x00, 0x69, 0x00, 0x00, 0x00]"
proof -
  have h: "fst (pcap_writer_init fresh_writer ''/spiffs/handshake.pcap'' True 24)"
    by (simp add: init_result)
  show ?thesis
    using h pcap_writer_init_header [OF h] by blast
qed

text \<open>
  C2. After a successful \<open>pcap_writer_init\<close>, let frames be written one after the
  other. The calls run to their end, and when every call returns true the file is the
  24-byte header followed by one record per frame, in the order written. Each record is
  16 bytes of record header and then the frame's bytes, unchanged and complete; the two
  length fields of the record header (at offsets 8 and 12) both hold the number of bytes
  of the frame.
\<close>

theorem write_packet_sequence_layout:
  assumes "fst (pcap_writer_init w filename ok accepted)"
    and "\<forall>x \<in> set ps. length (fst x) < 2 ^ 32"
  shows "(\<exists>oks w2.
            write_all (snd (pcap_writer_init w filename ok accepted)) ps = Inr (oks, w2)
          \<and> (False \<notin> set oks \<longrightarrow>
               files w2 filename =
                 Some (global_header_bytes gh
                       @ concat (map (\<lambda>(data, tv, acc_hdr, acc_data). capture_record tv data) ps))))
       \<and> length (global_header_bytes gh) = 24
       \<and> (\<forall>(data, tv, acc_hdr, acc_data) \<in> set ps.
             length (capture_record tv data) = 16 + length data
           \<and> unat (rd_le32 (drop 8 (capture_record tv data))) = length data
           \<and> unat (rd_le32 (drop 12 (capture_record tv data))) = length data
           \<and> drop 16 (capture_record tv data) = data)"
proof -
  let ?w1 = "snd (pcap_writer_init w filename ok accepted)"
  from assms(1) have ok: "ok \<and> 24 \<le> accepted"
    by (simp add: init_result split: if_splits)
  then have p: "pcap_file ?w1 = Some filename"
    and f: "files ?w1 filename = Some (global_header_bytes gh)"
    by (simp_all add: init_result)
  have layout: "\<exists>oks w2. write_all ?w1 ps = Inr (oks, w2)
          \<and> (False \<notin> set oks \<longrightarrow>
               files w2 filename =
                 Some (global_header_bytes gh
                       @ concat (map (\<lambda>(data, tv, acc_hdr, acc_data). capture_record tv data) ps)))"
    using write_all_run [OF p f, of ps] assms(2) by blast
  have fields: "length (capture_record tv data) = 16 + length data
           \<and> unat (rd_le32 (drop 8 (capture_record tv data))) = length data
           \<and> unat (rd_le32 (drop 12 (capture_record tv data))) = length data
           \<and> drop 16 (capture_record tv data) = data"
    if "(data, tv, a1, a2) \<in> set ps" for data tv a1 a2
  proof -
    from that assms(2) have "length data < 2 ^ 32" by fastforce
    then have "unat (word_of_nat (length data) :: u32) = length data"
      by (simp add: unat_of_nat)
    then show ?thesis by (simp add: capture_record_fields)
  qed
  have "\<forall>(data, tv, acc_hdr, acc_data) \<in> set ps.
             length (capture_record tv data) = 16 + length data
           \<and> unat (rd_le32 (drop 8 (capture_record tv data))) = length data
           \<and> unat (rd_le32 (drop 12 (capture_record tv data))) = length data
           \<and> drop 16 (capture_record tv data) = data"
    using fields by blast
  with layout show ?thesis
    by simp
qed

theorem write_packet_sequence_layout_witness:
  "fst (pcap_writer_init fresh_writer ''/spiffs/handshake.pcap'' True 24)
   \<and> (\<exists>w2. write_all (snd (pcap_writer_init fresh_writer ''/spiffs/handshake.pcap'' True 24))
               two_frames = Inr ([True, True], w2)
          \<and> files w2 ''/spiffs/handshake.pcap'' =
              Some ([0xd4, 0xc3, 0xb2, 0xa1, 0x02, 0x00, 0x04, 0x00, 0x00, 0x00, 0x00, 0x00,
                     0x00, 0x00, 0x00, 0x00, 0xff, 0xff, 0x00, 0x00, 0x69, 0x00, 0x00, 0x00]
                    @ [5, 0, 0, 0, 7, 0, 0, 0, 3, 0, 0, 0, 3, 0, 0, 0, 1, 2, 3]
                    @ [6, 0, 0, 0, 0, 0, 0, 0, 1, 0, 0, 0, 1, 0, 0, 0, 9]))"
proof -
  let ?w1 = "snd (pcap_writer_init fresh_writer ''/spiffs/handshake.pcap'' True 24)"
  have h1: "fst (pcap_writer_init fresh_writer ''/spiffs/handshake.pcap'' True 24)"
    by (simp add: init_result)
  have h2: "\<forall>x \<in> set two_frames. length (fst x) < 2 ^ 32"
    by (simp add: two_frames_def)
  have flags: "map_sum id fst (write_all ?w1 two_frames) = Inr [True, True]"
    by (simp add: two_frames_def init_result pcap_writer_write_packet_def fwrite_def
          fwrite_object_def fresh_writer_def Let_def packet_header_bytes_def)
  have recs: "concat (map (\<lambda>(data, tv, acc_hdr, acc_data). capture_record tv data) two_frames) =
      [5, 0, 0, 0, 7, 0, 0, 0, 3, 0, 0, 0, 3, 0, 0, 0, 1, 2, 3]
      @ [6, 0, 0, 0, 0, 0, 0, 0, 1, 0, 0, 0, 1, 0, 0, 0, 9]"
    by (simp add: two_frames_def capture_record_def le32_def)
  from write_packet_sequence_layout [OF h1 h2] obtain oks w2 where
    run: "write_all ?w1 two_frames = Inr (oks, w2)"
    and lay: "False \<notin> set oks \<longrightarrow> files w2 ''/spiffs/handshake.pcap'' =
        Some (global_header_bytes gh
              @ concat (map (\<lambda>(data, tv, acc_hdr, acc_data). capture_record tv data) two_frames))"
    by blast
  from run flags have oks: "oks = [True, True]" by simp
  with lay have "files w2 ''/spiffs/handshake.pcap'' =
        Some (global_header_bytes gh
              @ concat (map (\<lambda>(data, tv, acc_hdr, acc_data). capture_record tv data) two_frames))"
    by simp
  with run oks h1 show ?thesis
    unfolding recs global_header_bytes_gh by blast
qed

text \<open>
  C10. \<open>pcap_writer_close\<close> is idempotent. After one close the stream is released and
  the files are as they were; a second close changes nothing. On a writer whose stream
  was never opened (or is already released) close changes nothing at all.
\<close>

theorem pcap_writer_close_idempotent:
  "pcap_writer_close (pcap_writer_close w) = pcap_writer_close w
   \<and> pcap_file (pcap_writer_close w) = None
   \<and> files (pcap_writer_close w) = files w
   \<and> (pcap_file w = None \<longrightarrow> pcap_writer_close w = w)"
  by (simp add: pcap_writer_close_def)

theorem pcap_writer_close_idempotent_witness:
  "pcap_file fresh_writer = None \<and> pcap_writer_close fresh_writer = fresh_writer
   \<and> pcap_writer_close (pcap_writer_close (snd (pcap_writer_init fresh_writer ''/spiffs/handshake.pcap'' True 24)))
     = pcap_writer_close (snd (pcap_writer_init fresh_writer ''/spiffs/handshake.pcap'' True 24))"
proof -
  have h: "pcap_file fresh_writer = None"
    by (simp add: fresh_writer_def)
  show ?thesis
    using h pcap_writer_close_idempotent [of fresh_writer]
      pcap_writer_close_idempotent [of "snd (pcap_writer_init fresh_writer ''/spiffs/handshake.pcap'' True 24)"]
    by blast
qed

section \<open>Properties of the frame filter\<close>

lemma frame_type_low_byte:
  "(ucast (drop_bit 2 (ucast (p0 :: byte) OR push_bit 8 (ucast (p1 :: byte)) :: u16) AND 3) :: byte)
     = drop_bit 2 p0 AND 3"
proof -
  have m: "(3 :: u16) = mask 2" "(3 :: byte) = mask 2"
    by (simp_all add: mask_eq_exp_minus_1)
  show ?thesis
    unfolding m
    by (rule bit_word_eqI) (auto simp add: bit_simps)
qed

lemma rd_in_range [simp]: "i < length buf \<Longrightarrow> rd buf i = Inr (buf ! i)"
  by (simp add: rd_def)

lemma rd_out_of_range [simp]: "length buf \<le> i \<Longrightarrow> rd buf i = Inl (OutOfBounds i)"
  by (simp add: rd_def)

lemma llc_match_True_iff:
  "llc_match buf off cs = Inr True \<longleftrightarrow> take (length cs) (drop off buf) = cs"
proof (induction cs arbitrary: off)
  case Nil
  then show ?case by simp
next
  case (Cons c cs)
  show ?case
  proof (cases "off < length buf")
    case True
    then have d: "drop off buf = buf ! off # drop (Suc off) buf"
      by (simp add: Cons_nth_drop_Suc)
    show ?thesis
      using True Cons.IH [of "Suc off"] by (auto simp add: d)
  next
    case False
    then show ?thesis by simp
  qed
qed

lemma llc_match_in_range:
  "off + length cs \<le> length buf \<Longrightarrow>
   llc_match buf off cs = Inr (take (length cs) (drop off buf) = cs)"
proof (induction cs arbitrary: off)
  case Nil
  then show ?case by simp
next
  case (Cons c cs)
  then have lt: "off < length buf" by simp
  then have d: "drop off buf = buf ! off # drop (Suc off) buf"
    by (simp add: Cons_nth_drop_Suc)
  from Cons.prems have "Suc off + length cs \<le> length buf" by simp
  from Cons.IH [OF this] lt show ?case
    by (auto simp add: d)
qed

lemma promisc_cb_retain_decoded:
  assumes "2 \<le> length (payload pkt)"
  shows "promisc_cb_retain pkt =
           (if drop_bit 2 (payload pkt ! 0) AND 3 \<noteq> 2 then Inr False
            else if unat (sig_len pkt) < 30 then Inr False
            else llc_match (payload pkt) 24 eapol_llc)"
proof -
  from assms have r: "rd (payload pkt) 0 = Inr (payload pkt ! 0)"
    "rd (payload pkt) 1 = Inr (payload pkt ! 1)"
    by (auto simp add: rd_def)
  have len: "sig_len pkt < 30 \<longleftrightarrow> unat (sig_len pkt) < 30"
    by (simp add: word_less_nat_alt)
  show ?thesis
    unfolding promisc_cb_retain_def Let_def r frame_type_low_byte len by simp
qed

lemma promisc_cb_retain_short:
  assumes "length (payload pkt) < 2"
  shows "promisc_cb_retain pkt = Inl (OutOfBounds (length (payload pkt)))"
proof -
  from assms consider "length (payload pkt) = 0" | "length (payload pkt) = 1" by arith
  then show ?thesis
  proof cases
    case 1
    then have "rd (payload pkt) 0 = Inl (OutOfBounds 0)" by (simp add: rd_def)
    then show ?thesis unfolding promisc_cb_retain_def Let_def by (simp add: 1)
  next
    case 2
    then have "rd (payload pkt) 0 = Inr (payload pkt ! 0)" "rd (payload pkt) 1 = Inl (OutOfBounds 1)"
      by (simp_all add: rd_def)
    then show ?thesis unfolding promisc_cb_retain_def Let_def by (simp add: 2)
  qed
qed

lemma eapol_llc_length: "length eapol_llc = 8"
  by (simp add: eapol_llc_def)

lemma promisc_cb_retain_True_iff: "promisc_cb_retain pkt = Inr True \<longleftrightarrow>
     take 8 (drop 24 (payload pkt)) = eapol_llc
     \<and> drop_bit 2 (payload pkt ! 0) AND 3 = 2
     \<and> 30 \<le> unat (sig_len pkt)"
proof (cases "2 \<le> length (payload pkt)")
  case True
  show ?thesis
    using llc_match_True_iff [of "payload pkt" 24 eapol_llc]
    by (auto simp add: promisc_cb_retain_decoded [OF True] eapol_llc_length)
next
  case False
  then have "promisc_cb_retain pkt \<noteq> Inr True"
    by (simp add: promisc_cb_retain_short)
  moreover have "take 8 (drop 24 (payload pkt)) \<noteq> eapol_llc"
  proof
    assume "take 8 (drop 24 (payload pkt)) = eapol_llc"
    then have "length (take 8 (drop 24 (payload pkt))) = 8" by (simp add: eapol_llc_length)
    with False show False by simp
  qed
  ultimately show ?thesis by simp
qed

lemma promisc_cb_retain_mutation:
  assumes "32 \<le> length (payload pkt)" and "i < 8"
    and "payload pkt ! (24 + i) \<noteq> eapol_llc ! i"
  shows "promisc_cb_retain pkt = Inr False"
proof -
  have "(take 8 (drop 24 (payload pkt))) ! i = payload pkt ! (24 + i)"
    using assms(1,2) by simp
  with assms(3) have ne: "take 8 (drop 24 (payload pkt)) \<noteq> eapol_llc" by auto
  have "llc_match (payload pkt) 24 eapol_llc = Inr False"
    using llc_match_in_range [of 24 eapol_llc "payload pkt"] assms(1) ne
    by (simp add: eapol_llc_length)
  then show ?thesis
    using assms(1) by (simp add: promisc_cb_retain_decoded)
qed


text \<open>
  C1. The filter of \<open>promisc_cb\<close> retains a frame exactly when the frame-type bits
  (bits 2 and 3 of the first byte) say Data, the length is at least 30, and the eight bytes
  at offset 24 are AA AA 03 00 0C 00 88 8E. A frame of another type or of length below 30
  is rejected, and so is a frame in which one of the eight bytes differs. While a session
  is capturing, the callback passes a retained frame, whole, to the writer and keeps the
  writer's new state (the writer does not fault on a frame that holds \<open>sig_len\<close>
  bytes); a frame that is not retained leaves the state as it was.
\<close>

theorem promisc_cb_retains_exactly_eapol:
  "(promisc_cb_retain pkt = Inr True \<longleftrightarrow>
      drop_bit 2 (payload pkt ! 0) AND 3 = 2
      \<and> 30 \<le> unat (sig_len pkt)
      \<and> take 8 (drop 24 (payload pkt)) = [0xAA, 0xAA, 0x03, 0x00, 0x0C, 0x00, 0x88, 0x8E])
   \<and> (2 \<le> length (payload pkt)
        \<and> (drop_bit 2 (payload pkt ! 0) AND 3 \<noteq> 2 \<or> unat (sig_len pkt) < 30)
       \<longrightarrow> promisc_cb_retain pkt = Inr False)
   \<and> (32 \<le> length (payload pkt) \<and> i < 8
        \<and> payload pkt ! (24 + i) \<noteq> [0xAA, 0xAA, 0x03, 0x00, 0x0C, 0x00, 0x88, 0x8E] ! i
       \<longrightarrow> promisc_cb_retain pkt = Inr False)
   \<and> (g_capturing w \<and> promisc_cb_retain pkt = Inr True
       \<longrightarrow> promisc_cb w pkt tv acc_hdr acc_data =
             map_sum id (\<lambda>r. w\<lparr>writer := snd r\<rparr>)
               (pcap_writer_write_packet (writer w) (payload pkt)
                  (ucast (sig_len pkt)) tv acc_hdr acc_data))
   \<and> (unat (sig_len pkt) \<le> length (payload pkt)
       \<longrightarrow> (\<exists>ok wr. pcap_writer_write_packet (writer w) (payload pkt)
                         (ucast (sig_len pkt)) tv acc_hdr acc_data = Inr (ok, wr)))
   \<and> (promisc_cb_retain pkt \<noteq> Inr True
       \<longrightarrow> (\<forall>w'. promisc_cb w pkt tv acc_hdr acc_data = Inr w' \<longrightarrow> w' = w))"
proof -
  have a: "promisc_cb_retain pkt = Inr True \<longleftrightarrow>
      drop_bit 2 (payload pkt ! 0) AND 3 = 2
      \<and> 30 \<le> unat (sig_len pkt)
      \<and> take 8 (drop 24 (payload pkt)) = [0xAA, 0xAA, 0x03, 0x00, 0x0C, 0x00, 0x88, 0x8E]"
    unfolding promisc_cb_retain_True_iff eapol_llc_def by blast
  have b: "promisc_cb_retain pkt = Inr False"
    if "2 \<le> length (payload pkt)"
      and "drop_bit 2 (payload pkt ! 0) AND 3 \<noteq> 2 \<or> unat (sig_len pkt) < 30"
    using that by (auto simp add: promisc_cb_retain_decoded)
  have c: "promisc_cb_retain pkt = Inr False"
    if "32 \<le> length (payload pkt)" and "i < 8"
      and "payload pkt ! (24 + i) \<noteq> [0xAA, 0xAA, 0x03, 0x00, 0x0C, 0x00, 0x88, 0x8E] ! i"
    using promisc_cb_retain_mutation [of pkt i] that unfolding eapol_llc_def by blast
  have d: "promisc_cb w pkt tv acc_hdr acc_data =
             map_sum id (\<lambda>r. w\<lparr>writer := snd r\<rparr>)
               (pcap_writer_write_packet (writer w) (payload pkt)
                  (ucast (sig_len pkt)) tv acc_hdr acc_data)"
    if "g_capturing w" and "promisc_cb_retain pkt = Inr True"
    using that by (simp add: promisc_cb_def split: sum.splits)
  have d': "\<exists>ok wr. pcap_writer_write_packet (writer w) (payload pkt)
                         (ucast (sig_len pkt)) tv acc_hdr acc_data = Inr (ok, wr)"
    if "unat (sig_len pkt) \<le> length (payload pkt)"
    by (rule write_packet_no_fault) (simp add: that unat_ucast_sig_len)
  have e: "w' = w"
    if "promisc_cb_retain pkt \<noteq> Inr True" and "promisc_cb w pkt tv acc_hdr acc_data = Inr w'"
    for w'
    using that by (auto simp add: promisc_cb_def split: if_splits sum.splits bool.splits)
  from a b c d d' e show ?thesis by blast
qed

theorem promisc_cb_retains_exactly_eapol_witness:
  "promisc_cb_retain eapol_pkt = Inr True
   \<and> promisc_cb_retain beacon_pkt = Inr False
   \<and> promisc_cb_retain mutated_pkt = Inr False
   \<and> promisc_cb active_world eapol_pkt \<lparr>tv_sec = 5, tv_usec = 7\<rparr> 16 34 =
       map_sum id (\<lambda>r. active_world\<lparr>writer := snd r\<rparr>)
         (pcap_writer_write_packet (writer active_world)
            (payload eapol_pkt) 34 \<lparr>tv_sec = 5, tv_usec = 7\<rparr> 16 34)
   \<and> (\<exists>ok wr. pcap_writer_write_packet (writer active_world)
                 (payload eapol_pkt) 34 \<lparr>tv_sec = 5, tv_usec = 7\<rparr> 16 34 = Inr (ok, wr))
   \<and> promisc_cb active_world beacon_pkt \<lparr>tv_sec = 5, tv_usec = 7\<rparr> 16 34 = Inr active_world"
proof -
  have h1: "drop_bit 2 (payload eapol_pkt ! 0) AND 3 = 2 \<and> 30 \<le> unat (sig_len eapol_pkt)
      \<and> take 8 (drop 24 (payload eapol_pkt)) = [0xAA, 0xAA, 0x03, 0x00, 0x0C, 0x00, 0x88, 0x8E]"
    by (simp add: eapol_pkt_def)
  have r1: "promisc_cb_retain eapol_pkt = Inr True"
    using h1 promisc_cb_retains_exactly_eapol [of eapol_pkt] by blast
  have h2: "2 \<le> length (payload beacon_pkt) \<and> drop_bit 2 (payload beacon_pkt ! 0) AND 3 \<noteq> 2"
    by (simp add: beacon_pkt_def)
  have r2: "promisc_cb_retain beacon_pkt = Inr False"
    using h2 promisc_cb_retains_exactly_eapol [of beacon_pkt] by blast
  have h3: "32 \<le> length (payload mutated_pkt) \<and> (7 :: nat) < 8
      \<and> payload mutated_pkt ! (24 + 7) \<noteq> [0xAA, 0xAA, 0x03, 0x00, 0x0C, 0x00, 0x88, 0x8E] ! 7"
    by (simp add: mutated_pkt_def)
  have r3: "promisc_cb_retain mutated_pkt = Inr False"
    using h3 promisc_cb_retains_exactly_eapol [of mutated_pkt 7] by blast
  have h4: "g_capturing active_world"
    by (simp add: active_world_def)
  have s: "(ucast (sig_len eapol_pkt) :: u32) = 34"
    by (simp add: eapol_pkt_def)
  have r4: "promisc_cb active_world eapol_pkt \<lparr>tv_sec = 5, tv_usec = 7\<rparr> 16 34 =
       map_sum id (\<lambda>r. active_world\<lparr>writer := snd r\<rparr>)
         (pcap_writer_write_packet (writer active_world)
            (payload eapol_pkt) 34 \<lparr>tv_sec = 5, tv_usec = 7\<rparr> 16 34)"
    using h4 r1 promisc_cb_retains_exactly_eapol [of eapol_pkt _ active_world
        "\<lparr>tv_sec = 5, tv_usec = 7\<rparr>" 16 34]
    unfolding s by blast
  have h4': "unat (sig_len eapol_pkt) \<le> length (payload eapol_pkt)"
    by (simp add: eapol_pkt_def)
  have r4': "\<exists>ok wr. pcap_writer_write_packet (writer active_world)
                 (payload eapol_pkt) 34 \<lparr>tv_sec = 5, tv_usec = 7\<rparr> 16 34 = Inr (ok, wr)"
    using h4' promisc_cb_retains_exactly_eapol [of eapol_pkt _ active_world
        "\<lparr>tv_sec = 5, tv_usec = 7\<rparr>" 16 34]
    unfolding s by blast
  have h5: "promisc_cb_retain beacon_pkt \<noteq> Inr True"
    using r2 by simp
  have n5: "promisc_cb active_world beacon_pkt \<lparr>tv_sec = 5, tv_usec = 7\<rparr> 16 34 = Inr active_world"
    using h4 r2 by (simp add: promisc_cb_def)
  from r1 r2 r3 r4 r4' n5 show ?thesis by blast
qed

text \<open>
  C9. The filter reads \<open>payload[0]\<close> and \<open>payload[1]\<close> before it looks at the
  length, and after the test \<open>len < 30\<close> it reads up to offset 31. On a frame of one
  byte it reads offset 1, and on a data frame of 30 bytes that begins the pattern it reads
  offset 30: both lie outside the bytes delivered.
\<close>

theorem promisc_cb_reads_beyond_frame:
  "unat (sig_len runt_pkt) = length (payload runt_pkt)
   \<and> promisc_cb_retain runt_pkt = Inl (OutOfBounds 1)
   \<and> unat (sig_len pkt30) = length (payload pkt30)
   \<and> length (payload pkt30) = 30
   \<and> promisc_cb_retain pkt30 = Inl (OutOfBounds 30)"
proof -
  have "promisc_cb_retain runt_pkt = Inl (OutOfBounds 1)"
    by code_simp
  moreover have "promisc_cb_retain pkt30 = Inl (OutOfBounds 30)"
    by code_simp
  ultimately show ?thesis
    by (simp add: runt_pkt_def pkt30_def)
qed

section \<open>Properties of the deauthentication frame\<close>

lemma replicate_26: "replicate 26 (0 :: byte) =
  [0,0,0,0,0,0, 0,0,0,0,0,0, 0,0,0,0,0,0, 0,0,0,0,0,0, 0,0]"
  by code_simp

lemma deauth_frame_bytes:
  assumes "length dest = 6" "length src = 6" "length bssid = 6"
  shows "deauth_frame dest src bssid = [0xc0, 0, 0, 0] @ dest @ src @ bssid @ [0, 0, 0x07, 0x00]"
  using assms
  by (simp add: deauth_frame_def memcpy_def Let_def replicate_26 nth_append list_update_append)

text \<open>
  C4. For addresses of six bytes each, \<open>send_deauth_frame\<close> builds a frame of 26
  bytes: frame control C0 00, duration 00 00, then the destination, the source and the
  BSSID, sequence control 00 00 and reason code 07 00. This frame is what it hands to the
  radio.
\<close>

theorem deauth_frame_shape:
  assumes "length dest = 6" and "length src = 6" and "length bssid = 6"
  shows "length (deauth_frame dest src bssid) = 26
       \<and> deauth_frame dest src bssid ! 0 = 0xc0
       \<and> deauth_frame dest src bssid ! 2 = 0
       \<and> deauth_frame dest src bssid ! 3 = 0
       \<and> take 6 (drop 4 (deauth_frame dest src bssid)) = dest
       \<and> take 6 (drop 10 (deauth_frame dest src bssid)) = src
       \<and> take 6 (drop 16 (deauth_frame dest src bssid)) = bssid
       \<and> deauth_frame dest src bssid ! 24 = 0x07
       \<and> deauth_frame dest src bssid ! 25 = 0x00
       \<and> deauth_frame dest src bssid = [0xc0, 0, 0, 0] @ dest @ src @ bssid @ [0, 0, 0x07, 0x00]
       \<and> calls (radio (send_deauth_frame w dest src bssid)) =
           calls (radio w) @ [Tx_80211 (deauth_frame dest src bssid)]"
  using assms
  by (simp add: deauth_frame_bytes nth_append send_deauth_frame_def esp_wifi_80211_tx_def)

theorem deauth_frame_shape_witness:
  "length brc = 6 \<and> length (sta_mac idle_radio) = 6 \<and> length ap_bssid = 6
   \<and> deauth_frame brc (sta_mac idle_radio) ap_bssid =
       [0xc0, 0x00, 0x00, 0x00, 0xff, 0xff, 0xff, 0xff, 0xff, 0xff,
        0x24, 0x0a, 0xc4, 0x00, 0x00, 0x01, 0x00, 0x11, 0x22, 0x33, 0x44, 0x55,
        0x00, 0x00, 0x07, 0x00]"
proof -
  have h: "length brc = 6" "length (sta_mac idle_radio) = 6" "length ap_bssid = 6"
    by (simp_all add: brc_def idle_radio_def ap_bssid_def)
  from deauth_frame_shape [OF h] h show ?thesis
    by (simp add: brc_def idle_radio_def ap_bssid_def)
qed

section \<open>Properties of the session\<close>

lemma lock_channel_radio:
  "radio (lock_channel w) = (radio w)\<lparr>promiscuous := True, running := True,
     calls := calls (radio w) @ [Set_promiscuous False, Wifi_stop, Set_channel (g_target_channel w),
                                 Wifi_start, Set_promiscuous True]\<rparr>"
  by (simp add: lock_channel_def Let_def esp_wifi_set_promiscuous_def esp_wifi_stop_def
        esp_wifi_start_def esp_wifi_set_channel_def)

lemma lock_channel_fields:
  "g_capturing (lock_channel w) = g_capturing w"
  "writer (lock_channel w) = writer w"
  "g_target_bssid (lock_channel w) = g_target_bssid w"
  "g_target_channel (lock_channel w) = g_target_channel w"
  "orig_cb (lock_channel w) = orig_cb w"
  by (simp_all add: lock_channel_def Let_def)

lemma teardown_fields:
  "promiscuous (radio (teardown w)) = False"
  "rx_callback (radio (teardown w)) = None"
  "running (radio (teardown w)) = True"
  "calls (radio (teardown w)) = calls (radio w) @
      [Set_promiscuous False, Set_promiscuous_rx_cb None, Wifi_stop, Wifi_start]"
  "g_capturing (teardown w) = False"
  "pcap_file (writer (teardown w)) = None"
  "files (writer (teardown w)) = files (writer w)"
  by (simp_all add: teardown_def Let_def esp_wifi_set_promiscuous_def esp_wifi_stop_def
        esp_wifi_start_def esp_wifi_set_promiscuous_rx_cb_def pcap_writer_close_def)

lemma capture_when_open_fails:
  assumes "\<not> g_capturing w" and "\<not> fopen_ok env"
  shows "handshake_deauth_and_capture w bssid channel duration_ms env =
     Some (Inr (ESP_FAIL,
       (lock_channel (w\<lparr>g_target_bssid := memcpy (g_target_bssid w) 0 bssid 6,
                        g_target_channel := channel\<rparr>))
        \<lparr>writer := (writer w)\<lparr>pcap_file := None\<rparr>\<rparr>))"
  using assms
  by (simp add: handshake_deauth_and_capture_def Let_def init_result lock_channel_fields)


lemma activate_result:
  "activate w =
     (sta_mac (radio w),
      w\<lparr>radio := (radio w)\<lparr>rx_callback := Some PROMISC_CB,
              calls := calls (radio w) @ [Set_promiscuous_rx_cb (Some PROMISC_CB), Get_mac]\<rparr>,
        orig_cb := rx_callback (radio w), g_capturing := True\<rparr>)"
  by (simp add: activate_def Let_def esp_wifi_set_promiscuous_rx_cb_def esp_wifi_get_mac_def)

lemma capture_when_open_succeeds:
  assumes "\<not> g_capturing w" and "fopen_ok env" and "24 \<le> acc_header env"
  shows "handshake_deauth_and_capture w bssid channel duration_ms env =
     (let w4 = (lock_channel (w\<lparr>g_target_bssid := memcpy (g_target_bssid w) 0 bssid 6,
                                 g_target_channel := channel\<rparr>))
                 \<lparr>writer := (writer w)\<lparr>pcap_file := Some ''/spiffs/handshake.pcap'',
                     files := (files (writer w))(''/spiffs/handshake.pcap'' \<mapsto> global_header_bytes gh)\<rparr>\<rparr>
      in case deauth_loop (snd (activate w4)) (fst (activate w4))
                (word_of_nat (t_start env div 1000)) duration_ms (ticks env) of
           None \<Rightarrow> None
         | Some (Inl f) \<Rightarrow> Some (Inl f)
         | Some (Inr w6) \<Rightarrow> Some (Inr (ESP_OK, teardown w6)))"
  using assms
  by (simp add: handshake_deauth_and_capture_def Let_def init_result lock_channel_fields
        case_prod_beta)

text \<open>
  One frame handled by the callback during a session, for a frame that holds \<open>sig_len\<close>
  bytes and does not make the filter read outside them: only the capture file changes,
  by the bytes the sink takes when the frame is retained.
\<close>

lemma take_min_length: "take (min a (length xs)) xs = take a xs"
  by (cases "a \<le> length xs") (simp_all add: min_def)

lemma promisc_cb_step:
  assumes cap: "g_capturing w"
    and p: "pcap_file (writer w) = Some p" and f: "files (writer w) p = Some old"
    and wf: "unat (sig_len (rx_pkt e)) = length (payload (rx_pkt e))"
    and nf: "\<forall>f. promisc_cb_retain (rx_pkt e) \<noteq> Inl f"
  shows "\<exists>w'. promisc_cb w (rx_pkt e) (rx_tv e) (rx_acc_hdr e) (rx_acc_data e) = Inr w'
           \<and> radio w' = radio w \<and> g_capturing w' \<and> g_target_bssid w' = g_target_bssid w
           \<and> pcap_file (writer w') = Some p
           \<and> files (writer w') p = Some (old @ (if retained e then bytes_appended e else []))"
proof (cases "promisc_cb_retain (rx_pkt e)")
  case (Inl f)
  with nf show ?thesis by simp
next
  case (Inr b)
  show ?thesis
  proof (cases b)
    case False
    with Inr cap p f show ?thesis
      by (simp add: promisc_cb_def retained_def)
  next
    case True
    let ?len = "ucast (sig_len (rx_pkt e)) :: u32"
    have len: "unat ?len = length (payload (rx_pkt e))"
      by (simp add: unat_ucast_sig_len wf)
    then have fits: "unat ?len \<le> length (payload (rx_pkt e))"
      by simp
    note r = write_packet_result [OF p f fits, of "rx_tv e" "rx_acc_hdr e" "rx_acc_data e"]
    have ret: "retained e"
      using Inr True by (simp add: retained_def)
    show ?thesis
    proof (cases "16 \<le> rx_acc_hdr e")
      case h: True
      from r h have "pcap_writer_write_packet (writer w) (payload (rx_pkt e)) ?len
            (rx_tv e) (rx_acc_hdr e) (rx_acc_data e) =
          Inr (unat ?len \<noteq> 0 \<and> unat ?len \<le> rx_acc_data e,
               (writer w)\<lparr>files := (files (writer w))(p \<mapsto> old @ bytes_appended e)\<rparr>)"
        by (simp add: Let_def bytes_appended_def len take_min_length)
      with Inr True cap p ret show ?thesis
        by (simp add: promisc_cb_def)
    next
      case h: False
      from r h have "pcap_writer_write_packet (writer w) (payload (rx_pkt e)) ?len
            (rx_tv e) (rx_acc_hdr e) (rx_acc_data e) =
          Inr (False, (writer w)\<lparr>files := (files (writer w))(p \<mapsto> old @ bytes_appended e)\<rparr>)"
        by (simp add: Let_def bytes_appended_def)
      with Inr True cap p ret show ?thesis
        by (simp add: promisc_cb_def)
    qed
  qed
qed

text \<open>The frames of one pass, by induction on their list.\<close>

lemma deliver_run:
  assumes "g_capturing w" and "promiscuous (radio w)" and "rx_callback (radio w) = Some PROMISC_CB"
    and "pcap_file (writer w) = Some p" and "files (writer w) p = Some old"
    and "\<forall>e \<in> set evs. unat (sig_len (rx_pkt e)) = length (payload (rx_pkt e))
                        \<and> (\<forall>f. promisc_cb_retain (rx_pkt e) \<noteq> Inl f)"
  shows "\<exists>w'. deliver w evs = Inr w'
           \<and> radio w' = radio w \<and> g_capturing w' \<and> g_target_bssid w' = g_target_bssid w
           \<and> pcap_file (writer w') = Some p
           \<and> files (writer w') p = Some (old @ concat (map bytes_appended (filter retained evs)))"
  using assms
proof (induction evs arbitrary: w old)
  case Nil
  then show ?case by simp
next
  case (Cons e evs)
  from Cons.prems(6) have wf: "unat (sig_len (rx_pkt e)) = length (payload (rx_pkt e))"
    and nf: "\<forall>f. promisc_cb_retain (rx_pkt e) \<noteq> Inl f"
    and rest: "\<forall>e \<in> set evs. unat (sig_len (rx_pkt e)) = length (payload (rx_pkt e))
                        \<and> (\<forall>f. promisc_cb_retain (rx_pkt e) \<noteq> Inl f)"
    by simp_all
  obtain w1 where
    step: "promisc_cb w (rx_pkt e) (rx_tv e) (rx_acc_hdr e) (rx_acc_data e) = Inr w1"
    and r1: "radio w1 = radio w" and c1: "g_capturing w1"
    and b1: "g_target_bssid w1 = g_target_bssid w"
    and p1: "pcap_file (writer w1) = Some p"
    and f1: "files (writer w1) p = Some (old @ (if retained e then bytes_appended e else []))"
    using promisc_cb_step [OF Cons.prems(1,4,5) wf nf] by blast
  have m1: "promiscuous (radio w1)" "rx_callback (radio w1) = Some PROMISC_CB"
    using Cons.prems(2,3) by (simp_all add: r1)
  obtain w2 where
    run: "deliver w1 evs = Inr w2"
    and r2: "radio w2 = radio w1" and c2: "g_capturing w2"
    and b2: "g_target_bssid w2 = g_target_bssid w1"
    and p2: "pcap_file (writer w2) = Some p"
    and f2: "files (writer w2) p =
        Some ((old @ (if retained e then bytes_appended e else []))
              @ concat (map bytes_appended (filter retained evs)))"
    using Cons.IH [OF c1 m1 p1 f1 rest] by blast
  have "deliver w (e # evs) = Inr w2"
    using Cons.prems(2,3) by (simp add: step run)
  moreover have "files (writer w2) p =
      Some (old @ concat (map bytes_appended (filter retained (e # evs))))"
    by (simp add: f2)
  ultimately show ?case
    using r1 r2 c2 b1 b2 p2 by auto
qed

text \<open>
  The loop, by induction on the clock readings: it ends at the first reading at which
  its condition fails, and until then every reading gives one pass.
\<close>

lemma deauth_loop_run:
  assumes "g_capturing w" and "promiscuous (radio w)" and "rx_callback (radio w) = Some PROMISC_CB"
    and "pcap_file (writer w) = Some p" and "files (writer w) p = Some old"
    and "\<exists>(now, evs) \<in> set tks. \<not> int (now div 1000) - uint start_ms < uint duration_ms"
    and "\<forall>(now, evs) \<in> set (takeWhile
            (\<lambda>(now, evs). int (now div 1000) - uint start_ms < uint duration_ms) tks).
           \<forall>e \<in> set evs. unat (sig_len (rx_pkt e)) = length (payload (rx_pkt e))
                        \<and> (\<forall>f. promisc_cb_retain (rx_pkt e) \<noteq> Inl f)"
  shows "\<exists>w'. deauth_loop w esp_mac start_ms duration_ms tks = Some (Inr w')
           \<and> calls (radio w') = calls (radio w)
               @ replicate (length (takeWhile
                   (\<lambda>(now, evs). int (now div 1000) - uint start_ms < uint duration_ms) tks))
                   (Tx_80211 (deauth_frame brc esp_mac (g_target_bssid w)))
           \<and> files (writer w') p =
               Some (old @ concat (map bytes_appended (filter retained (concat (map snd
                       (takeWhile (\<lambda>(now, evs). int (now div 1000) - uint start_ms < uint duration_ms)
                          tks))))))"
  using assms
proof (induction tks arbitrary: w old)
  case Nil
  then show ?case by simp
next
  case (Cons t tks)
  obtain now evs where t: "t = (now, evs)" by (cases t) auto
  let ?C = "\<lambda>(now, evs). int (now div 1000) - uint start_ms < uint duration_ms"
  show ?case
  proof (cases "int (now div 1000) - uint start_ms < uint duration_ms")
    case False
    with Cons.prems(5) show ?thesis by (simp add: t)
  next
    case True
    let ?w1 = "send_deauth_frame w brc esp_mac (g_target_bssid w)"
    have tw: "takeWhile ?C (t # tks) = (now, evs) # takeWhile ?C tks"
      using True by (simp add: t)
    from Cons.prems(6) True
    have ends: "\<exists>(now, evs) \<in> set tks. \<not> int (now div 1000) - uint start_ms < uint duration_ms"
      by (auto simp add: t)
    from Cons.prems(7) have wf: "\<forall>e \<in> set evs. unat (sig_len (rx_pkt e)) = length (payload (rx_pkt e))
                        \<and> (\<forall>f. promisc_cb_retain (rx_pkt e) \<noteq> Inl f)"
      and rest: "\<forall>(now, evs) \<in> set (takeWhile ?C tks).
           \<forall>e \<in> set evs. unat (sig_len (rx_pkt e)) = length (payload (rx_pkt e))
                        \<and> (\<forall>f. promisc_cb_retain (rx_pkt e) \<noteq> Inl f)"
      unfolding tw by simp_all
    have s1: "g_capturing ?w1" "promiscuous (radio ?w1)" "rx_callback (radio ?w1) = Some PROMISC_CB"
      "pcap_file (writer ?w1) = Some p" "files (writer ?w1) p = Some old"
      using Cons.prems(1-5) by (simp_all add: send_deauth_frame_def esp_wifi_80211_tx_def)
    have k1: "calls (radio ?w1) =
        calls (radio w) @ [Tx_80211 (deauth_frame brc esp_mac (g_target_bssid w))]"
      "g_target_bssid ?w1 = g_target_bssid w"
      by (simp_all add: send_deauth_frame_def esp_wifi_80211_tx_def)
    obtain w2 where
      d: "deliver ?w1 evs = Inr w2"
      and r2: "radio w2 = radio ?w1" and c2: "g_capturing w2"
      and b2: "g_target_bssid w2 = g_target_bssid ?w1"
      and p2: "pcap_file (writer w2) = Some p"
      and f2: "files (writer w2) p = Some (old @ concat (map bytes_appended (filter retained evs)))"
      using deliver_run [OF s1 wf] by blast
    have m2: "promiscuous (radio w2)" "rx_callback (radio w2) = Some PROMISC_CB"
      using s1(2,3) by (simp_all add: r2)
    obtain w' where
      l: "deauth_loop w2 esp_mac start_ms duration_ms tks = Some (Inr w')"
      and cl: "calls (radio w') = calls (radio w2)
               @ replicate (length (takeWhile ?C tks))
                   (Tx_80211 (deauth_frame brc esp_mac (g_target_bssid w2)))"
      and fl: "files (writer w') p =
               Some ((old @ concat (map bytes_appended (filter retained evs)))
                     @ concat (map bytes_appended (filter retained (concat (map snd
                         (takeWhile ?C tks))))))"
      using Cons.IH [OF c2 m2 p2 f2 ends rest] by blast
    have "deauth_loop w esp_mac start_ms duration_ms (t # tks) = Some (Inr w')"
      using True by (simp add: t d l Let_def)
    moreover have "calls (radio w') = calls (radio w)
               @ replicate (length (takeWhile ?C (t # tks)))
                   (Tx_80211 (deauth_frame brc esp_mac (g_target_bssid w)))"
      unfolding tw cl r2 b2 k1 by simp
    moreover have "files (writer w') p =
               Some (old @ concat (map bytes_appended (filter retained (concat (map snd
                       (takeWhile ?C (t # tks)))))))"
      unfolding tw fl by simp
    ultimately show ?thesis by blast
  qed
qed

lemma eapol_pkt_retained: "promisc_cb_retain eapol_pkt = Inr True"
  by code_simp

text \<open>
  When the length field says more than the bytes delivered, the writer is asked for bytes
  beyond the frame: the callback faults at the first offset past the payload.
\<close>

lemma promisc_cb_writer_over_read:
  "promisc_cb active_world overlong_pkt \<lparr>tv_sec = 5, tv_usec = 7\<rparr> 16 40 = Inl (OutOfBounds 34)"
proof -
  have r: "promisc_cb_retain overlong_pkt = Inr True"
    by (simp add: promisc_cb_retain_True_iff overlong_pkt_def eapol_pkt_def eapol_llc_def)
  have g: "g_capturing active_world"
    by (simp add: active_world_def)
  have p: "pcap_file (writer active_world) = Some ''/spiffs/handshake.pcap''"
    and f: "files (writer active_world) ''/spiffs/handshake.pcap'' = Some (global_header_bytes gh)"
    by (simp_all add: active_world_def init_result)
  have short: "length (payload overlong_pkt) < unat (ucast (sig_len overlong_pkt) :: u32)"
    by (simp add: overlong_pkt_def eapol_pkt_def)
  have "pcap_writer_write_packet (writer active_world) (payload overlong_pkt)
          (ucast (sig_len overlong_pkt)) \<lparr>tv_sec = 5, tv_usec = 7\<rparr> 16 40 =
        Inl (OutOfBounds (length (payload overlong_pkt)))"
    by (rule write_packet_over_read [OF p f short]) simp
  then show ?thesis
    using r g by (simp add: promisc_cb_def overlong_pkt_def eapol_pkt_def)
qed

text \<open>
  C7. Called while a session is capturing, \<open>handshake_deauth_and_capture\<close> returns
  \<open>ESP_ERR_INVALID_STATE\<close> at once: the state is the one it was called in, so the
  targets, the writer, the files and the radio (mode, callback and the list of driver
  calls) are untouched.
\<close>

theorem capture_rejected_while_capturing:
  assumes "g_capturing w"
  shows "handshake_deauth_and_capture w bssid channel duration_ms env =
           Some (Inr (ESP_ERR_INVALID_STATE, w))"
  using assms by (simp add: handshake_deauth_and_capture_def)

theorem capture_rejected_while_capturing_witness:
  "g_capturing active_world
   \<and> handshake_deauth_and_capture active_world ap_bssid 6 20000 env_no_time =
       Some (Inr (ESP_ERR_INVALID_STATE, active_world))"
proof -
  have h: "g_capturing active_world"
    by (simp add: active_world_def)
  from capture_rejected_while_capturing [OF h] h show ?thesis
    by blast
qed

text \<open>
  C5. When the capture file cannot be opened, the session returns \<open>ESP_FAIL\<close> straight
  after steps 1 and 2: the last request to the radio was to switch promiscuous mode on, and
  steps 6 to 8 do not run. Shown on the device at rest, target channel 6.
\<close>

theorem capture_open_failure_leaves_promiscuous_on:
  "returned (handshake_deauth_and_capture idle_world ap_bssid 6 20000 env_fopen_fails) = Some ESP_FAIL
   \<and> map_option (promiscuous \<circ> radio)
        (final_world (handshake_deauth_and_capture idle_world ap_bssid 6 20000 env_fopen_fails)) = Some True
   \<and> map_option (calls \<circ> radio)
        (final_world (handshake_deauth_and_capture idle_world ap_bssid 6 20000 env_fopen_fails)) =
       Some [Set_promiscuous False, Wifi_stop, Set_channel 6, Wifi_start, Set_promiscuous True]"
proof -
  have a: "\<not> g_capturing idle_world" by (simp add: idle_world_def)
  have b: "\<not> fopen_ok env_fopen_fails" by (simp add: env_fopen_fails_def)
  show ?thesis
    unfolding capture_when_open_fails [OF a b]
    by (simp add: returned_def final_world_def lock_channel_radio lock_channel_fields
          idle_world_def idle_radio_def)
qed

text \<open>
  C6, as the code has it. A write error in the callback is not reported to the session.
  Let the capture file be opened, let the clock readings reach the end of the loop, and
  let every frame delivered during the passes of the loop hold \<open>sig_len\<close> bytes and not
  make the filter read outside them. Nothing is asked of the outcomes of the frame
  writes. Then:
  \<^item> the callback drops the value the writer returns: for a retained frame it keeps the
    writer's new state whether the writer returned true or false, and changes nothing
    else;
  \<^item> the loop is not cut short: the radio is asked to send one deauthentication frame
    (broadcast, from the station's address, for the target BSSID) for every clock reading
    before the first at which the duration has elapsed, between the calls of steps 1 to 4
    and those of steps 6 to 8;
  \<^item> every retained frame of these passes is handed to the writer, in order, also
    after a write has failed: the capture file is the header followed by what the sink
    took of each;
  \<^item> the session then does the teardown and returns \<open>ESP_OK\<close>.
\<close>

theorem capture_runs_on_after_write_errors:
  assumes "\<not> g_capturing w" and "fopen_ok env" and "24 \<le> acc_header env"
    and "\<exists>(now, evs) \<in> set (ticks env).
           \<not> int (now div 1000) - uint (word_of_nat (t_start env div 1000) :: u32) < uint duration_ms"
    and "\<forall>(now, evs) \<in> set (passes env duration_ms).
           \<forall>e \<in> set evs. unat (sig_len (rx_pkt e)) = length (payload (rx_pkt e))
                        \<and> (\<forall>f. promisc_cb_retain (rx_pkt e) \<noteq> Inl f)"
  shows "(\<exists>w'. handshake_deauth_and_capture w bssid channel duration_ms env = Some (Inr (ESP_OK, w'))
            \<and> \<not> promiscuous (radio w') \<and> rx_callback (radio w') = None
            \<and> \<not> g_capturing w' \<and> pcap_file (writer w') = None
            \<and> calls (radio w') =
                calls (radio w)
                @ [Set_promiscuous False, Wifi_stop, Set_channel channel, Wifi_start,
                   Set_promiscuous True, Set_promiscuous_rx_cb (Some PROMISC_CB), Get_mac]
                @ replicate (length (passes env duration_ms))
                    (Tx_80211 (deauth_frame brc (sta_mac (radio w))
                                 (memcpy (g_target_bssid w) 0 bssid 6)))
                @ [Set_promiscuous False, Set_promiscuous_rx_cb None, Wifi_stop, Wifi_start]
            \<and> files (writer w') ''/spiffs/handshake.pcap'' =
                Some (global_header_bytes gh
                      @ concat (map bytes_appended
                          (filter retained (concat (map snd (passes env duration_ms)))))))
       \<and> (\<forall>v pkt tv acc_hdr acc_data ok wr.
             g_capturing v \<and> promisc_cb_retain pkt = Inr True
             \<and> pcap_writer_write_packet (writer v) (payload pkt) (ucast (sig_len pkt))
                   tv acc_hdr acc_data = Inr (ok, wr)
             \<longrightarrow> promisc_cb v pkt tv acc_hdr acc_data = Inr (v\<lparr>writer := wr\<rparr>))"
proof -
  let ?path = "''/spiffs/handshake.pcap''"
  let ?b = "memcpy (g_target_bssid w) 0 bssid 6"
  let ?w4 = "(lock_channel (w\<lparr>g_target_bssid := ?b, g_target_channel := channel\<rparr>))
                 \<lparr>writer := (writer w)\<lparr>pcap_file := Some ?path,
                     files := (files (writer w))(?path \<mapsto> global_header_bytes gh)\<rparr>\<rparr>"
  let ?w5 = "snd (activate ?w4)"
  let ?start = "word_of_nat (t_start env div 1000) :: u32"
  have mac: "fst (activate ?w4) = sta_mac (radio w)"
    by (simp add: activate_result lock_channel_radio)
  have inv: "g_capturing ?w5" "promiscuous (radio ?w5)" "rx_callback (radio ?w5) = Some PROMISC_CB"
    "pcap_file (writer ?w5) = Some ?path"
    "files (writer ?w5) ?path = Some (global_header_bytes gh)"
    by (simp_all add: activate_result lock_channel_radio)
  have c5: "calls (radio ?w5) = calls (radio w)
      @ [Set_promiscuous False, Wifi_stop, Set_channel channel, Wifi_start,
         Set_promiscuous True, Set_promiscuous_rx_cb (Some PROMISC_CB), Get_mac]"
    and b5: "g_target_bssid ?w5 = ?b"
    by (simp_all add: activate_result lock_channel_radio lock_channel_fields)
  obtain w6 where
    loop: "deauth_loop ?w5 (sta_mac (radio w)) ?start duration_ms (ticks env) = Some (Inr w6)"
    and c6: "calls (radio w6) = calls (radio ?w5)
        @ replicate (length (passes env duration_ms))
            (Tx_80211 (deauth_frame brc (sta_mac (radio w)) (g_target_bssid ?w5)))"
    and f6: "files (writer w6) ?path =
        Some (global_header_bytes gh
              @ concat (map bytes_appended
                  (filter retained (concat (map snd (passes env duration_ms))))))"
    using deauth_loop_run [OF inv assms(4) assms(5) [unfolded passes_def],
        of "sta_mac (radio w)"]
    unfolding passes_def by blast
  have "handshake_deauth_and_capture w bssid channel duration_ms env = Some (Inr (ESP_OK, teardown w6))"
    unfolding capture_when_open_succeeds [OF assms(1-3)] Let_def mac loop by simp
  moreover have "calls (radio (teardown w6)) =
      calls (radio w)
      @ [Set_promiscuous False, Wifi_stop, Set_channel channel, Wifi_start,
         Set_promiscuous True, Set_promiscuous_rx_cb (Some PROMISC_CB), Get_mac]
      @ replicate (length (passes env duration_ms))
          (Tx_80211 (deauth_frame brc (sta_mac (radio w)) ?b))
      @ [Set_promiscuous False, Set_promiscuous_rx_cb None, Wifi_stop, Wifi_start]"
    unfolding teardown_fields c6 c5 b5 by simp
  moreover have "files (writer (teardown w6)) ?path =
      Some (global_header_bytes gh
            @ concat (map bytes_appended
                (filter retained (concat (map snd (passes env duration_ms))))))"
    unfolding teardown_fields f6 ..
  ultimately have session: "\<exists>w'.
        handshake_deauth_and_capture w bssid channel duration_ms env = Some (Inr (ESP_OK, w'))
      \<and> \<not> promiscuous (radio w') \<and> rx_callback (radio w') = None
      \<and> \<not> g_capturing w' \<and> pcap_file (writer w') = None
      \<and> calls (radio w') =
          calls (radio w)
          @ [Set_promiscuous False, Wifi_stop, Set_channel channel, Wifi_start,
             Set_promiscuous True, Set_promiscuous_rx_cb (Some PROMISC_CB), Get_mac]
          @ replicate (length (passes env duration_ms))
              (Tx_80211 (deauth_frame brc (sta_mac (radio w)) ?b))
          @ [Set_promiscuous False, Set_promiscuous_rx_cb None, Wifi_stop, Wifi_start]
      \<and> files (writer w') ?path =
          Some (global_header_bytes gh
                @ concat (map bytes_appended
                    (filter retained (concat (map snd (passes env duration_ms))))))"
    by (simp add: teardown_fields)
  have callback: "promisc_cb v pkt tv acc_hdr acc_data = Inr (v\<lparr>writer := wr\<rparr>)"
    if "g_capturing v" and "promisc_cb_retain pkt = Inr True"
      and "pcap_writer_write_packet (writer v) (payload pkt) (ucast (sig_len pkt))
             tv acc_hdr acc_data = Inr (ok, wr)"
    for v pkt tv acc_hdr acc_data ok wr
    using that by (simp add: promisc_cb_def)
  from session callback show ?thesis
    by blast
qed

theorem capture_runs_on_after_write_errors_witness:
  "(\<exists>w'. handshake_deauth_and_capture idle_world ap_bssid 6 10 env_write_fails = Some (Inr (ESP_OK, w'))
        \<and> \<not> promiscuous (radio w') \<and> rx_callback (radio w') = None
        \<and> \<not> g_capturing w' \<and> pcap_file (writer w') = None
        \<and> calls (radio w') =
            [Set_promiscuous False, Wifi_stop, Set_channel 6, Wifi_start,
             Set_promiscuous True, Set_promiscuous_rx_cb (Some PROMISC_CB), Get_mac,
             Tx_80211 [0xc0, 0x00, 0x00, 0x00, 0xff, 0xff, 0xff, 0xff, 0xff, 0xff,
                       0x24, 0x0a, 0xc4, 0x00, 0x00, 0x01, 0x00, 0x11, 0x22, 0x33, 0x44, 0x55,
                       0x00, 0x00, 0x07, 0x00],
             Set_promiscuous False, Set_promiscuous_rx_cb None, Wifi_stop, Wifi_start]
        \<and> files (writer w') ''/spiffs/handshake.pcap'' =
            Some ([0xd4, 0xc3, 0xb2, 0xa1, 0x02, 0x00, 0x04, 0x00, 0x00, 0x00, 0x00, 0x00,
                   0x00, 0x00, 0x00, 0x00, 0xff, 0xff, 0x00, 0x00, 0x69, 0x00, 0x00, 0x00]
                  @ [5, 0, 0, 0, 7, 0, 0, 0, 34, 0, 0, 0, 34, 0, 0, 0]
                  @ [0x08, 0x02, 0, 0, 1, 2, 3, 4, 5, 6]))
   \<and> (\<exists>wr. pcap_writer_write_packet (writer active_world) (payload eapol_pkt)
               (ucast (sig_len eapol_pkt)) \<lparr>tv_sec = 5, tv_usec = 7\<rparr> 16 10 = Inr (False, wr)
          \<and> promisc_cb active_world eapol_pkt \<lparr>tv_sec = 5, tv_usec = 7\<rparr> 16 10 =
              Inr (active_world\<lparr>writer := wr\<rparr>))"
proof -
  let ?ev = "\<lparr>rx_pkt = eapol_pkt, rx_tv = \<lparr>tv_sec = 5, tv_usec = 7\<rparr>,
              rx_acc_hdr = 16, rx_acc_data = 10\<rparr>"
  have a: "\<not> g_capturing idle_world" by (simp add: idle_world_def)
  have b: "fopen_ok env_write_fails" "24 \<le> acc_header env_write_fails"
    by (simp_all add: env_write_fails_def)
  have c: "\<exists>(now, evs) \<in> set (ticks env_write_fails).
      \<not> int (now div 1000) - uint (word_of_nat (t_start env_write_fails div 1000) :: u32) < uint (10 :: u32)"
    by (simp add: env_write_fails_def)
  have ps: "passes env_write_fails 10 = [(1000000, [?ev])]"
    by (simp add: passes_def env_write_fails_def)
  have d: "\<forall>(now, evs) \<in> set (passes env_write_fails 10).
      \<forall>e \<in> set evs. unat (sig_len (rx_pkt e)) = length (payload (rx_pkt e))
                   \<and> (\<forall>f. promisc_cb_retain (rx_pkt e) \<noteq> Inl f)"
    unfolding ps by (simp add: eapol_pkt_retained) (simp add: eapol_pkt_def)
  have app: "bytes_appended ?ev =
      [5, 0, 0, 0, 7, 0, 0, 0, 34, 0, 0, 0, 34, 0, 0, 0] @ [0x08, 0x02, 0, 0, 1, 2, 3, 4, 5, 6]"
    by (simp add: bytes_appended_def packet_header_bytes_def le32_def eapol_pkt_def)
  have ret: "retained ?ev"
    by (simp add: retained_def eapol_pkt_retained)
  have frame: "deauth_frame brc (sta_mac (radio idle_world)) (memcpy (g_target_bssid idle_world) 0 ap_bssid 6) =
      [0xc0, 0x00, 0x00, 0x00, 0xff, 0xff, 0xff, 0xff, 0xff, 0xff,
       0x24, 0x0a, 0xc4, 0x00, 0x00, 0x01, 0x00, 0x11, 0x22, 0x33, 0x44, 0x55,
       0x00, 0x00, 0x07, 0x00]"
    by (simp add: deauth_frame_bytes memcpy_def brc_def idle_world_def idle_radio_def ap_bssid_def)
  have c0: "calls (radio idle_world) = []"
    by (simp add: idle_world_def idle_radio_def)
  have g: "g_capturing active_world"
    by (simp add: active_world_def)
  have fit: "unat (ucast (sig_len eapol_pkt) :: u32) \<le> length (payload eapol_pkt)"
    by (simp add: unat_ucast_sig_len eapol_pkt_def)
  obtain ok wr where
    wp: "pcap_writer_write_packet (writer active_world) (payload eapol_pkt)
           (ucast (sig_len eapol_pkt)) \<lparr>tv_sec = 5, tv_usec = 7\<rparr> 16 10 = Inr (ok, wr)"
    using write_packet_no_fault [OF fit] by blast
  have refused: "map_sum id fst (pcap_writer_write_packet (writer active_world) (payload eapol_pkt)
           (ucast (sig_len eapol_pkt)) \<lparr>tv_sec = 5, tv_usec = 7\<rparr> 16 10) = Inr False"
    by (simp add: active_world_def init_result pcap_writer_write_packet_def fwrite_def
          fwrite_object_def eapol_pkt_def packet_header_bytes_def)
  with wp have nok: "ok = False" by simp
  note main = capture_runs_on_after_write_errors [OF a b c d, of ap_bssid 6]
  from main have cb: "promisc_cb active_world eapol_pkt \<lparr>tv_sec = 5, tv_usec = 7\<rparr> 16 10 =
      Inr (active_world\<lparr>writer := wr\<rparr>)"
    using g eapol_pkt_retained wp by blast
  from main obtain w' where
    "handshake_deauth_and_capture idle_world ap_bssid 6 10 env_write_fails = Some (Inr (ESP_OK, w'))"
    "\<not> promiscuous (radio w')" "rx_callback (radio w') = None"
    "\<not> g_capturing w'" "pcap_file (writer w') = None"
    "calls (radio w') =
        calls (radio idle_world)
        @ [Set_promiscuous False, Wifi_stop, Set_channel 6, Wifi_start,
           Set_promiscuous True, Set_promiscuous_rx_cb (Some PROMISC_CB), Get_mac]
        @ replicate (length (passes env_write_fails 10))
            (Tx_80211 (deauth_frame brc (sta_mac (radio idle_world))
                         (memcpy (g_target_bssid idle_world) 0 ap_bssid 6)))
        @ [Set_promiscuous False, Set_promiscuous_rx_cb None, Wifi_stop, Wifi_start]"
    "files (writer w') ''/spiffs/handshake.pcap'' =
        Some (global_header_bytes gh
              @ concat (map bytes_appended
                  (filter retained (concat (map snd (passes env_write_fails 10))))))"
    by blast
  then have "handshake_deauth_and_capture idle_world ap_bssid 6 10 env_write_fails = Some (Inr (ESP_OK, w'))
        \<and> \<not> promiscuous (radio w') \<and> rx_callback (radio w') = None
        \<and> \<not> g_capturing w' \<and> pcap_file (writer w') = None
        \<and> calls (radio w') =
            [Set_promiscuous False, Wifi_stop, Set_channel 6, Wifi_start,
             Set_promiscuous True, Set_promiscuous_rx_cb (Some PROMISC_CB), Get_mac,
             Tx_80211 [0xc0, 0x00, 0x00, 0x00, 0xff, 0xff, 0xff, 0xff, 0xff, 0xff,
                       0x24, 0x0a, 0xc4, 0x00, 0x00, 0x01, 0x00, 0x11, 0x22, 0x33, 0x44, 0x55,
                       0x00, 0x00, 0x07, 0x00],
             Set_promiscuous False, Set_promiscuous_rx_cb None, Wifi_stop, Wifi_start]
        \<and> files (writer w') ''/spiffs/handshake.pcap'' =
            Some ([0xd4, 0xc3, 0xb2, 0xa1, 0x02, 0x00, 0x04, 0x00, 0x00, 0x00, 0x00, 0x00,
                   0x00, 0x00, 0x00, 0x00, 0xff, 0xff, 0x00, 0x00, 0x69, 0x00, 0x00, 0x00]
                  @ [5, 0, 0, 0, 7, 0, 0, 0, 34, 0, 0, 0, 34, 0, 0, 0]
                  @ [0x08, 0x02, 0, 0, 1, 2, 3, 4, 5, 6])"
    unfolding ps frame c0 global_header_bytes_gh by (simp add: ret app)
  with wp nok cb show ?thesis
    by blast
qed

text \<open>
  C6, as stated, fails. An EAPOL frame arrives during the first pass of the loop; the
  writer takes the record header and 10 of the 34 bytes and reports failure. The loop
  ends at the next reading of the clock and the session returns \<open>ESP_OK\<close>; the capture
  file ends in the cut record.
\<close>

theorem write_error_not_surfaced_counterexample:
  "map_sum id fst (pcap_writer_write_packet (writer active_world) (payload eapol_pkt) 34
                     \<lparr>tv_sec = 5, tv_usec = 7\<rparr> 16 10) = Inr False
   \<and> returned (handshake_deauth_and_capture idle_world ap_bssid 6 10 env_write_fails) = Some ESP_OK
   \<and> capture_file (handshake_deauth_and_capture idle_world ap_bssid 6 10 env_write_fails) =
       Some ([0xd4, 0xc3, 0xb2, 0xa1, 0x02, 0x00, 0x04, 0x00, 0x00, 0x00, 0x00, 0x00,
              0x00, 0x00, 0x00, 0x00, 0xff, 0xff, 0x00, 0x00, 0x69, 0x00, 0x00, 0x00]
             @ [5, 0, 0, 0, 7, 0, 0, 0, 34, 0, 0, 0, 34, 0, 0, 0]
             @ [0x08, 0x02, 0, 0, 1, 2, 3, 4, 5, 6])"
proof -
  have a: "\<not> g_capturing idle_world" by (simp add: idle_world_def)
  have b: "fopen_ok env_write_fails" "24 \<le> acc_header env_write_fails"
    by (simp_all add: env_write_fails_def)
  have t: "ticks env_write_fails =
      [(1000000, [\<lparr>rx_pkt = eapol_pkt, rx_tv = \<lparr>tv_sec = 5, tv_usec = 7\<rparr>,
                    rx_acc_hdr = 16, rx_acc_data = 10\<rparr>]), (1010000, [])]"
    "t_start env_write_fails = 1000000"
    by (simp_all add: env_write_fails_def)
  have hdr: "packet_header_bytes \<lparr>ts_sec = 5, ts_usec = 7, incl_len = 34, orig_len = 34\<rparr> =
      [5, 0, 0, 0, 7, 0, 0, 0, 34, 0, 0, 0, 34, 0, 0, 0]"
    by (simp add: packet_header_bytes_def le32_def)
  have pl: "payload eapol_pkt =
      [0x08, 0x02, 0, 0, 1, 2, 3, 4, 5, 6, 7, 8, 9, 10, 11, 12, 7, 8, 9, 10, 11, 12, 0, 0,
       0xAA, 0xAA, 0x03, 0x00, 0x0C, 0x00, 0x88, 0x8E, 0x01, 0x03]" "sig_len eapol_pkt = 34"
    by (simp_all add: eapol_pkt_def)
  have refused: "map_sum id fst (pcap_writer_write_packet (writer active_world) (payload eapol_pkt) 34
                     \<lparr>tv_sec = 5, tv_usec = 7\<rparr> 16 10) = Inr False"
    by (simp add: active_world_def init_result pcap_writer_write_packet_def fwrite_def
          fwrite_object_def pl hdr)
  have ret: "returned (handshake_deauth_and_capture idle_world ap_bssid 6 10 env_write_fails) = Some ESP_OK"
    unfolding capture_when_open_succeeds [OF a b] t
    by (simp add: Let_def activate_result returned_def teardown_fields
          lock_channel_radio lock_channel_fields send_deauth_frame_def esp_wifi_80211_tx_def
          promisc_cb_def eapol_pkt_retained pcap_writer_write_packet_def fwrite_def
          fwrite_object_def idle_world_def fresh_writer_def hdr pl)
  have content: "capture_file (handshake_deauth_and_capture idle_world ap_bssid 6 10 env_write_fails) =
       Some ([0xd4, 0xc3, 0xb2, 0xa1, 0x02, 0x00, 0x04, 0x00, 0x00, 0x00, 0x00, 0x00,
              0x00, 0x00, 0x00, 0x00, 0xff, 0xff, 0x00, 0x00, 0x69, 0x00, 0x00, 0x00]
             @ [5, 0, 0, 0, 7, 0, 0, 0, 34, 0, 0, 0, 34, 0, 0, 0]
             @ [0x08, 0x02, 0, 0, 1, 2, 3, 4, 5, 6])"
    unfolding capture_when_open_succeeds [OF a b] t
    by (simp add: Let_def activate_result final_world_def capture_file_def teardown_fields
          lock_channel_radio lock_channel_fields send_deauth_frame_def esp_wifi_80211_tx_def
          promisc_cb_def eapol_pkt_retained pcap_writer_write_packet_def fwrite_def
          fwrite_object_def idle_world_def fresh_writer_def hdr pl global_header_bytes_gh)
  from refused ret content show ?thesis by blast
qed

section \<open>Properties of the request handler\<close>

lemma atoi_samples: "atoi ''14'' = 14" "atoi ''0'' = 0" "atoi ''6'' = 6"
  by code_simp+

text \<open>
  C8, as the code has it. The channel is checked by \<open>attack_get_handler\<close>, the caller
  of the session. When the channel it parses lies outside 1 to 13, the handler answers
  without calling \<open>handshake_deauth_and_capture\<close>: the radio (mode, callback, list of
  driver calls) and the session state are as before, no file is created or written, and
  the response is not the page that reports a capture. When the request is otherwise well
  formed and no old capture file is in the way, the answer is 400 "Invalid channel" in an
  unchanged state.
\<close>

theorem attack_handler_rejects_bad_channel:
  assumes "atoi chan_str < 1 \<or> 13 < atoi chan_str"
  shows "(\<exists>r resp w'.
            attack_get_handler w uri ssid chan_str bssid_str vals env = Some (Inr (r, resp, w'))
          \<and> resp \<noteq> Page_done
          \<and> radio w' = radio w
          \<and> g_capturing w' = g_capturing w
          \<and> g_target_bssid w' = g_target_bssid w
          \<and> g_target_channel w' = g_target_channel w
          \<and> pcap_file (writer w') = pcap_file (writer w)
          \<and> (\<forall>p. files (writer w') p = None \<or> files (writer w') p = files (writer w) p))
       \<and> (\<not> handshake_exists w \<and> ssid \<noteq> [] \<and> chan_str \<noteq> [] \<and> length bssid_str = 17 \<longrightarrow>
            attack_get_handler w uri ssid chan_str bssid_str vals env =
              Some (Inr (ESP_FAIL, Error_400 ''Invalid channel'', w)))"
  using assms
  by (auto simp add: attack_get_handler_def check_and_clean_def Let_def)

theorem attack_handler_rejects_bad_channel_witness:
  "(atoi ''14'' < 1 \<or> 13 < atoi ''14'')
   \<and> attack_get_handler idle_world ''/attack'' ''home'' ''14'' ''00:11:22:33:44:55''
        [0x00, 0x11, 0x22, 0x33, 0x44, 0x55] env_no_time =
       Some (Inr (ESP_FAIL, Error_400 ''Invalid channel'', idle_world))"
proof -
  have h: "atoi ''14'' < 1 \<or> 13 < atoi ''14''"
    by (simp add: atoi_samples)
  have e: "\<not> handshake_exists idle_world \<and> ''home'' \<noteq> [] \<and> ''14'' \<noteq> []
      \<and> length ''00:11:22:33:44:55'' = 17"
    by (simp add: handshake_exists_def idle_world_def fresh_writer_def)
  from attack_handler_rejects_bad_channel [of "''14''" idle_world "''/attack''" "''home''"
      "''00:11:22:33:44:55''" "[0x00, 0x11, 0x22, 0x33, 0x44, 0x55]" env_no_time] e h
  show ?thesis by blast
qed

text \<open>
  C8, as stated, fails. \<open>handshake_deauth_and_capture\<close> itself takes channel 0: it
  reconfigures the radio, passes 0 to \<open>esp_wifi_set_channel\<close>, creates the capture file
  and returns \<open>ESP_OK\<close>.
\<close>

theorem capture_accepts_channel_zero_counterexample:
  "returned (handshake_deauth_and_capture idle_world ap_bssid 0 0 env_no_time) = Some ESP_OK
   \<and> map_option (calls \<circ> radio)
        (final_world (handshake_deauth_and_capture idle_world ap_bssid 0 0 env_no_time)) =
       Some [Set_promiscuous False, Wifi_stop, Set_channel 0, Wifi_start, Set_promiscuous True,
             Set_promiscuous_rx_cb (Some PROMISC_CB), Get_mac,
             Set_promiscuous False, Set_promiscuous_rx_cb None, Wifi_stop, Wifi_start]
   \<and> capture_file (handshake_deauth_and_capture idle_world ap_bssid 0 0 env_no_time) =
       Some [0xd4, 0xc3, 0xb2, 0xa1, 0x02, 0x00, 0x04, 0x00, 0x00, 0x00, 0x00, 0x00,
             0x00, 0x00, 0x00, 0x00, 0xff, 0xff, 0x00, 0x00, 0x69, 0x00, 0x00, 0x00]"
proof -
  have a: "\<not> g_capturing idle_world" by (simp add: idle_world_def)
  have b: "fopen_ok env_no_time" "24 \<le> acc_header env_no_time"
    by (simp_all add: env_no_time_def)
  have t: "ticks env_no_time = [(1000000, [])]" "t_start env_no_time = 1000000"
    by (simp_all add: env_no_time_def)
  show ?thesis
    unfolding capture_when_open_succeeds [OF a b] t
    by (simp add: Let_def activate_result returned_def final_world_def capture_file_def
          teardown_fields lock_channel_radio lock_channel_fields idle_world_def idle_radio_def
          fresh_writer_def global_header_bytes_gh)
qed

end
